theory Spec2Isabelle
  imports Complex_Main "HOL-Library.AList"
begin

section \<open>PeakConverter: genomic to transcriptomic coordinates\<close>

text \<open>
  A shallow embedding of \<^verbatim>\<open>PeakConverter.py\<close>. Python integers are \<open>int\<close>, Python
  lists and deques are HOL lists (\<open>append\<close> adds at the back, \<open>appendleft\<close> at the
  front), dictionaries are association lists in insertion order, and every exception the
  modelled code can raise is a value of \<open>py_error\<close> on the left of a sum.
\<close>

datatype py_error = IndexError | TypeError | ValueError | OverflowError | SystemExit

subsection \<open>class Transcript\<close>

text \<open>
  The attributes of a \<^verbatim>\<open>Transcript\<close> object, in the order of \<^verbatim>\<open>__init__\<close>. The attribute
  \<^verbatim>\<open>id\<close> is \<open>tx_id\<close> and \<^verbatim>\<open>type\<close> is \<open>tx_type\<close>; \<^verbatim>\<open>None\<close> is \<open>None\<close>.
\<close>

record transcript =
  tx_id :: string
  uid :: int
  chrom :: string
  strand :: string
  txs :: int
  txe :: int
  cdss :: int
  cdse :: int
  genomic_starts :: "int list"
  genomic_ends :: "int list"
  gid :: string
  trans_starts :: "int list"
  trans_ends :: "int list"
  tx_type :: "string option"
  ctis :: "int option"
  stop :: "int option"

text \<open>
  \<^verbatim>\<open>__len__\<close>: \<^verbatim>\<open>sorted(self.trans_ends, reverse=True)[0]\<close>, which raises
  \<^verbatim>\<open>IndexError\<close> on an empty deque.
\<close>

definition transcript_len :: "transcript \<Rightarrow> py_error + int" where
  "transcript_len self =
     (case rev (sort (trans_ends self)) of
        [] \<Rightarrow> Inl IndexError
      | longest # _ \<Rightarrow> Inr longest)"

text \<open>
  The loop of the \<^verbatim>\<open>"+"\<close> branch of \<^verbatim>\<open>get_transcriptomic_coordinates\<close>: the first
  argument is what is left of \<^verbatim>\<open>self.genomic_starts\<close>, \<open>index\<close> the position
  \<^verbatim>\<open>enumerate\<close> has reached, \<open>b\<close> the running offset, and the pair the two deques.
  Reading \<^verbatim>\<open>self.genomic_ends[index]\<close> past the end raises.
\<close>

fun plus_loop ::
  "int list \<Rightarrow> int list \<Rightarrow> nat \<Rightarrow> int \<Rightarrow> int list \<times> int list \<Rightarrow> py_error + (int list \<times> int list)"
where
  "plus_loop [] ends index b (ts, te) = Inr (ts, te)"
| "plus_loop (exon_st # rest) ends index b (ts, te) =
     (if index < length ends then
        (let exon_end = ends ! index;
             tr_exon_st = b;
             tr_exon_end = b + exon_end - exon_st
         in plus_loop rest ends (Suc index) (b + exon_end - exon_st)
              (ts @ [tr_exon_st], te @ [tr_exon_end]))
      else Inl IndexError)"

text \<open>
  The loop of the \<^verbatim>\<open>"-"\<close> branch, called on the reversed lists; it differs from the
  other one in \<^verbatim>\<open>appendleft\<close> only.
\<close>

fun minus_loop ::
  "int list \<Rightarrow> int list \<Rightarrow> nat \<Rightarrow> int \<Rightarrow> int list \<times> int list \<Rightarrow> py_error + (int list \<times> int list)"
where
  "minus_loop [] ends index b (ts, te) = Inr (ts, te)"
| "minus_loop (exon_st # rest) ends index b (ts, te) =
     (if index < length ends then
        (let exon_end = ends ! index;
             tr_exon_st = b;
             tr_exon_end = b + exon_end - exon_st
         in minus_loop rest ends (Suc index) (b + exon_end - exon_st)
              (tr_exon_st # ts, tr_exon_end # te))
      else Inl IndexError)"

definition get_transcriptomic_coordinates :: "transcript \<Rightarrow> py_error + transcript" where
  "get_transcriptomic_coordinates self =
     (if strand self = ''+'' then
        (case plus_loop (genomic_starts self) (genomic_ends self) 0 0
                (trans_starts self, trans_ends self) of
           Inl e \<Rightarrow> Inl e
         | Inr (ts, te) \<Rightarrow> Inr (self\<lparr>trans_starts := ts, trans_ends := te\<rparr>))
      else if strand self = ''-'' then
        (case minus_loop (rev (genomic_starts self)) (rev (genomic_ends self)) 0 0
                (trans_starts self, trans_ends self) of
           Inl e \<Rightarrow> Inl e
         | Inr (ts, te) \<Rightarrow> Inr (self\<lparr>trans_starts := ts, trans_ends := te\<rparr>))
      else Inr self)"

text \<open>
  The loop of \<^verbatim>\<open>get_start_stop\<close> over
  \<^verbatim>\<open>zip(self.genomic_starts, self.genomic_ends, self.trans_starts)\<close>; the state is the
  pair \<^verbatim>\<open>(self.ctis, self.stop)\<close>. Each of the two tests assigns one of the two
  attributes, so a later exon that passes a test overwrites what an earlier one set.
\<close>

fun start_stop_loop ::
  "string \<Rightarrow> int \<Rightarrow> int \<Rightarrow> (int \<times> int \<times> int) list \<Rightarrow> int option \<times> int option
     \<Rightarrow> int option \<times> int option"
where
  "start_stop_loop sd cs ce [] st = st"
| "start_stop_loop sd cs ce ((exon_start, exon_end, tr_exon_start) # rest) (c, s) =
     (let (c1, s1) =
            (if exon_start \<le> cs \<and> cs \<le> exon_end then
               (if sd = ''+'' then (Some (tr_exon_start + cs - exon_start), s)
                else (c, Some (tr_exon_start + exon_end - cs)))
             else (c, s));
          (c2, s2) =
            (if exon_start \<le> ce \<and> ce \<le> exon_end then
               (if sd = ''+'' then (c1, Some (tr_exon_start + ce - exon_start))
                else (Some (tr_exon_start + exon_end - ce), s1))
             else (c1, s1))
      in start_stop_loop sd cs ce rest (c2, s2))"

definition get_start_stop :: "transcript \<Rightarrow> transcript" where
  "get_start_stop self =
     (if cdss self = cdse self then
        self\<lparr>ctis := Some (- 1), stop := Some (- 1), tx_type := Some ''non-coding''\<rparr>
      else
        (let (c, s) =
               start_stop_loop (strand self) (cdss self) (cdse self)
                 (zip (genomic_starts self) (zip (genomic_ends self) (trans_starts self)))
                 (ctis self, stop self)
         in self\<lparr>tx_type := Some ''coding'', ctis := c, stop := s\<rparr>))"

text \<open>
  \<^verbatim>\<open>__init__\<close>: the attributes are stored, the deques start empty, and the two
  derivations run; an exception of the first one leaves no object.
\<close>

definition Transcript ::
  "string \<Rightarrow> string \<Rightarrow> string \<Rightarrow> int \<Rightarrow> int \<Rightarrow> int \<Rightarrow> int \<Rightarrow> int list \<Rightarrow> int list \<Rightarrow> string \<Rightarrow> int
     \<Rightarrow> py_error + transcript"
where
  "Transcript tx_id' chrom' strand' tx_start tx_end cds_start cds_end exon_starts exon_ends
       gene_id uid' =
     (case get_transcriptomic_coordinates
             \<lparr>tx_id = tx_id', uid = uid', chrom = chrom', strand = strand',
              txs = tx_start, txe = tx_end, cdss = cds_start, cdse = cds_end,
              genomic_starts = exon_starts, genomic_ends = exon_ends, gid = gene_id,
              trans_starts = [], trans_ends = [], tx_type = None, ctis = None, stop = None\<rparr> of
        Inl e \<Rightarrow> Inl e
      | Inr self \<Rightarrow> Inr (get_start_stop self))"

subsection \<open>build_transcript and build_transcriptome\<close>

text \<open>
  A line of the table array of \<^verbatim>\<open>read_table_into_array\<close>, columns 0 to 10:
  UID, Tx ID, Chrom, Strand, Tx Start, Tx End, CDS Start, CDS End, Exon Starts,
  Exon Ends, Gene ID. The fields carry the names \<^verbatim>\<open>build_transcript\<close> gives them.
\<close>

record table_line =
  line_uid :: int
  line_tx_id :: string
  line_chrom :: string
  line_strand :: string
  txStart :: int
  txEnd :: int
  cdsStart :: int
  cdsEnd :: int
  exonStarts_list :: "int list"
  exonEnds_list :: "int list"
  gene_id :: string

definition build_transcript :: "table_line \<Rightarrow> py_error + transcript" where
  "build_transcript array_line =
     Transcript (line_tx_id array_line) (line_chrom array_line) (line_strand array_line)
       (txStart array_line) (txEnd array_line) (cdsStart array_line) (cdsEnd array_line)
       (exonStarts_list array_line) (exonEnds_list array_line) (gene_id array_line)
       (line_uid array_line)"

text \<open>
  The keys of the transcripts dictionary: column 0 is an integer, columns 1 and 10 are
  strings. \<open>line_key key line\<close> is \<^verbatim>\<open>line[keydict[key]]\<close> for a valid \<open>key\<close>.
\<close>

datatype dict_key = IntKey int | StrKey string

definition line_key :: "string \<Rightarrow> table_line \<Rightarrow> dict_key" where
  "line_key key line =
     (if key = ''uid'' then IntKey (line_uid line)
      else if key = ''gid'' then StrKey (gene_id line)
      else StrKey (line_tx_id line))"

text \<open>
  The dictionary is an association list in insertion order: \<open>AList.update\<close> replaces the
  value of a key that is present where it stands and adds a new key at the end, as an
  assignment to a Python dictionary does.
\<close>

fun transcriptome_loop ::
  "string \<Rightarrow> table_line list \<Rightarrow> (dict_key \<times> transcript list) list
     \<Rightarrow> py_error + (dict_key \<times> transcript list) list"
where
  "transcriptome_loop key [] transcripts = Inr transcripts"
| "transcriptome_loop key (line # rest) transcripts =
     (case build_transcript line of
        Inl e \<Rightarrow> Inl e
      | Inr tx \<Rightarrow>
          (case map_of transcripts (line_key key line) of
             None \<Rightarrow>
               transcriptome_loop key rest (AList.update (line_key key line) [tx] transcripts)
           | Some grp \<Rightarrow>
               transcriptome_loop key rest
                 (AList.update (line_key key line) (grp @ [tx]) transcripts)))"

definition build_transcriptome ::
  "table_line list \<Rightarrow> string \<Rightarrow> py_error + (dict_key \<times> transcript list) list"
where
  "build_transcriptome table_array key =
     (if key \<notin> set [''gid'', ''txid'', ''uid''] then Inl SystemExit
      else transcriptome_loop key table_array [])"

subsection \<open>get_parameters\<close>

text \<open>
  A cell of the parameters table holds an integer, a string (the code writes the
  sentinel as the string \<^verbatim>\<open>'-1'\<close>) or \<^verbatim>\<open>None\<close>.
\<close>

datatype cell = IntCell int | StrCell string | NoneCell

definition cell_of :: "int option \<Rightarrow> cell" where
  "cell_of v = (case v of None \<Rightarrow> NoneCell | Some n \<Rightarrow> IntCell n)"

record parameter_row =
  Tx_ID :: string
  ATG :: cell
  Stop :: cell
  Length :: int
  FirstSpliceSite :: cell
  LastSpliceSite :: cell
  UID :: int

text \<open>\<^verbatim>\<open>tx.ctis > 0\<close>: comparing \<^verbatim>\<open>None\<close> with an integer raises \<^verbatim>\<open>TypeError\<close>.\<close>

definition ctis_positive :: "transcript \<Rightarrow> py_error + bool" where
  "ctis_positive tx = (case ctis tx of None \<Rightarrow> Inl TypeError | Some v \<Rightarrow> Inr (v > 0))"

text \<open>
  \<^verbatim>\<open>len(tx)\<close>: the builtin calls \<^verbatim>\<open>__len__\<close>, raises \<^verbatim>\<open>ValueError\<close> when the
  result is negative and \<^verbatim>\<open>OverflowError\<close> when it is above \<^verbatim>\<open>sys.maxsize\<close>, and
  returns it otherwise. \<open>sys_maxsize\<close> is the value of a 64-bit build.
\<close>

definition sys_maxsize :: int where
  "sys_maxsize = 2 ^ 63 - 1"

definition py_len :: "transcript \<Rightarrow> py_error + int" where
  "py_len tx =
     (case transcript_len tx of
        Inl e \<Rightarrow> Inl e
      | Inr n \<Rightarrow>
          (if n < 0 then Inl ValueError
           else if n > sys_maxsize then Inl OverflowError
           else Inr n))"

text \<open>The dictionary \<^verbatim>\<open>par\<close> of one branch; \<^verbatim>\<open>len(tx)\<close> may raise.\<close>

definition par :: "transcript \<Rightarrow> cell \<Rightarrow> cell \<Rightarrow> cell \<Rightarrow> cell \<Rightarrow> py_error + parameter_row" where
  "par tx atg stp first_site last_site =
     (case py_len tx of
        Inl e \<Rightarrow> Inl e
      | Inr n \<Rightarrow>
          Inr \<lparr>Tx_ID = tx_id tx, ATG = atg, Stop = stp, Length = n,
               FirstSpliceSite = first_site, LastSpliceSite = last_site, UID = uid tx\<rparr>)"

text \<open>
  The four branches for one transcript, in the order of the source:
  spliced and coding, spliced, coding, neither.
\<close>

definition tx_parameters :: "transcript \<Rightarrow> py_error + parameter_row" where
  "tx_parameters tx =
     (let starts = sort (trans_starts tx) in
      if length starts > 1 then
        (case ctis_positive tx of
           Inl e \<Rightarrow> Inl e
         | Inr True \<Rightarrow>
             par tx (cell_of (ctis tx)) (cell_of (stop tx))
               (IntCell (starts ! 1)) (IntCell (last starts))
         | Inr False \<Rightarrow>
             par tx (StrCell ''-1'') (StrCell ''-1'')
               (IntCell (starts ! 1)) (IntCell (last starts)))
      else
        (case ctis_positive tx of
           Inl e \<Rightarrow> Inl e
         | Inr True \<Rightarrow>
             par tx (cell_of (ctis tx)) (cell_of (stop tx)) (StrCell ''-1'') (StrCell ''-1'')
         | Inr False \<Rightarrow>
             par tx (StrCell ''-1'') (StrCell ''-1'') (StrCell ''-1'') (StrCell ''-1'')))"

text \<open>The inner loop, over the transcripts of one key, and the outer one, over the keys.\<close>

fun class_parameters ::
  "transcript list \<Rightarrow> parameter_row list \<Rightarrow> py_error + parameter_row list"
where
  "class_parameters [] parameters = Inr parameters"
| "class_parameters (tx # rest) parameters =
     (if length (chrom tx) \<le> 5 then
        (case tx_parameters tx of
           Inl e \<Rightarrow> Inl e
         | Inr row \<Rightarrow> class_parameters rest (parameters @ [row]))
      else class_parameters rest parameters)"

fun parameters_loop ::
  "(dict_key \<times> transcript list) list \<Rightarrow> parameter_row list \<Rightarrow> py_error + parameter_row list"
where
  "parameters_loop [] parameters = Inr parameters"
| "parameters_loop ((tx_class, grp) # rest) parameters =
     (case class_parameters grp parameters of
        Inl e \<Rightarrow> Inl e
      | Inr parameters' \<Rightarrow> parameters_loop rest parameters')"

text \<open>
  The last three lines of \<^verbatim>\<open>get_parameters\<close>: \<^verbatim>\<open>pd.DataFrame(parameters)\<close> followed
  by the assignment of the seven column names. A frame made from rows of seven cells
  has seven columns and takes the names; a frame made from the empty list has no
  column, and the assignment raises \<^verbatim>\<open>ValueError\<close>. The frame is the list of
  its rows.
\<close>

definition parameters_df :: "parameter_row list \<Rightarrow> py_error + parameter_row list" where
  "parameters_df parameters = (if parameters = [] then Inl ValueError else Inr parameters)"

definition get_parameters ::
  "(dict_key \<times> transcript list) list \<Rightarrow> py_error + parameter_row list"
where
  "get_parameters tx_dict =
     (case parameters_loop tx_dict [] of
        Inl e \<Rightarrow> Inl e
      | Inr parameters \<Rightarrow> parameters_df parameters)"

subsection \<open>gen2tr\<close>

text \<open>
  A line of the temporary conversion file: chromosome, exon start, exon end, two
  placeholders, strand, unique id, and the exon's transcriptomic start and end.
\<close>

type_synonym bed_key_line = "string \<times> int \<times> int \<times> string \<times> string \<times> string \<times> int \<times> int \<times> int"

definition bed_key_uid :: "bed_key_line \<Rightarrow> int" where
  "bed_key_uid l = (case l of (_, _, _, _, _, _, u, _, _) \<Rightarrow> u)"

definition exon_lines :: "transcript \<Rightarrow> bed_key_line list" where
  "exon_lines tx =
     map (\<lambda>(exon_start, exon_end, tr_exon_st, tr_exon_end).
            (chrom tx, exon_start, exon_end, ''*'', ''*'', strand tx, uid tx,
             tr_exon_st, tr_exon_end))
       (zip (genomic_starts tx) (zip (genomic_ends tx)
          (zip (trans_starts tx) (trans_ends tx))))"

text \<open>
  What \<^verbatim>\<open>gen2tr\<close> writes to \<^verbatim>\<open>temp_bed_key\<close>: the exons of the transcripts whose
  key holds exactly one transcript.
\<close>

definition temp_bed_key :: "(dict_key \<times> transcript list) list \<Rightarrow> bed_key_line list" where
  "temp_bed_key tx_dict =
     concat (map (\<lambda>(tx_class, grp).
                    if length grp = 1 then concat (map exon_lines grp) else [])
               tx_dict)"

text \<open>
  The main program builds the dictionary with the key \<^verbatim>\<open>'txid'\<close> and hands it to
  \<^verbatim>\<open>gen2tr\<close>.
\<close>

definition main_temp_bed_key :: "table_line list \<Rightarrow> py_error + bed_key_line list" where
  "main_temp_bed_key tb_array =
     (case build_transcriptome tb_array ''txid'' of
        Inl e \<Rightarrow> Inl e
      | Inr tx_dict \<Rightarrow> Inr (temp_bed_key tx_dict))"

text \<open>
  A line of the intersection, with the fields the loop reads from it: columns 1, 2, 3
  of the peak and columns -9, -8, -5, -4, -3, -1 from the end.
\<close>

record intersect_line =
  p_start :: int
  p_end :: int
  peak_id :: string
  ex_st :: int
  ex_end :: int
  peak_strand :: string
  peak_uid :: string
  tr_exon_start :: int
  overlap :: int

text \<open>
  The body of the loop over the intersection: the line printed to
  \<^verbatim>\<open>temp_tr_bed\<close>, or none for a strand that is neither of the two.
\<close>

definition remap_line :: "intersect_line \<Rightarrow> (string \<times> int \<times> int \<times> string) option" where
  "remap_line l =
     (if peak_strand l = ''+'' then
        (if p_start l \<le> ex_st l then
           Some (peak_uid l, tr_exon_start l, tr_exon_start l + overlap l, peak_id l)
         else if p_start l > ex_st l then
           (let gap = p_start l - ex_st l
            in Some (peak_uid l, tr_exon_start l + gap, tr_exon_start l + gap + overlap l,
                     peak_id l))
         else None)
      else if peak_strand l = ''-'' then
        (if p_end l \<ge> ex_end l then
           Some (peak_uid l, tr_exon_start l, tr_exon_start l + overlap l, peak_id l)
         else if p_end l < ex_end l then
           (let gap = ex_end l - p_end l
            in Some (peak_uid l, tr_exon_start l + gap, tr_exon_start l + gap + overlap l,
                     peak_id l))
         else None)
      else None)"

fun temp_tr_bed :: "intersect_line list \<Rightarrow> (string \<times> int \<times> int \<times> string) list" where
  "temp_tr_bed [] = []"
| "temp_tr_bed (l # rest) =
     (case remap_line l of
        None \<Rightarrow> temp_tr_bed rest
      | Some seg \<Rightarrow> seg # temp_tr_bed rest)"

subsection \<open>choose_selected_cufflinks\<close>

text \<open>
  A line of the expression file is the triple of its columns 3, 9 and 7: isoform, FPKM
  and transcript length. The FPKM is the number the parsed float stands for (no NaN).
  The annotation index \<open>gene_dict\<close> of \<^verbatim>\<open>isoform_gene_dict\<close> maps an isoform to its gene
  and its coding flag, 0 or 1. An entry of \<open>iso_dict\<close> is
  \<^verbatim>\<open>(isoform, fpkm, txlength, coding)\<close>.
\<close>

type_synonym iso_entry = "string \<times> real \<times> int \<times> int"

fun cufflinks_loop ::
  "(string \<Rightarrow> (string \<times> int) option) \<Rightarrow> (string \<times> real \<times> int) list
     \<Rightarrow> (string \<times> iso_entry) list \<Rightarrow> int \<Rightarrow> py_error + (string \<times> iso_entry) list"
where
  "cufflinks_loop gene_dict [] iso_dict c = Inr iso_dict"
| "cufflinks_loop gene_dict ((isoform, fpkm, txlength) # rest) iso_dict c =
     (case gene_dict isoform of
        Some (gene, coding) \<Rightarrow>
          (case map_of iso_dict gene of
             Some (best, best_fpkm, best_txlength, best_coding) \<Rightarrow>
               (if fpkm > best_fpkm then
                  cufflinks_loop gene_dict rest
                    (AList.update gene (isoform, fpkm, txlength, coding) iso_dict) c
                else if fpkm = best_fpkm \<and> coding = 1 \<and> best_coding = 0 then
                  cufflinks_loop gene_dict rest
                    (AList.update gene (isoform, fpkm, txlength, coding) iso_dict) c
                else if fpkm = best_fpkm \<and> txlength > best_txlength then
                  cufflinks_loop gene_dict rest
                    (AList.update gene (isoform, fpkm, txlength, coding) iso_dict) c
                else cufflinks_loop gene_dict rest iso_dict c)
           | None \<Rightarrow>
               cufflinks_loop gene_dict rest
                 (AList.update gene (isoform, fpkm, txlength, coding) iso_dict) c)
      | None \<Rightarrow>
          (if c + 1 > 5 then Inl SystemExit
           else cufflinks_loop gene_dict rest iso_dict (c + 1)))"

definition choose_selected_cufflinks ::
  "(string \<times> real \<times> int) list \<Rightarrow> (string \<Rightarrow> (string \<times> int) option) \<Rightarrow> py_error + string set"
where
  "choose_selected_cufflinks input_file gene_dict =
     (case cufflinks_loop gene_dict input_file [] 0 of
        Inl e \<Rightarrow> Inl e
      | Inr iso_dict \<Rightarrow> Inr (set (map (\<lambda>(gene, entry). fst entry) iso_dict)))"

subsection \<open>Notions used in the statements and proofs\<close>

text \<open>The genomic lengths of the exons, index by index.\<close>

definition exon_lengths :: "int list \<Rightarrow> int list \<Rightarrow> int list" where
  "exon_lengths gs ge = map2 (\<lambda>s e. e - s) gs ge"

text \<open>The offsets a running sum from \<open>b\<close> passes through before each length is added.\<close>

fun running :: "int \<Rightarrow> int list \<Rightarrow> int list" where
  "running b [] = []"
| "running b (l # ls) = b # running (b + l) ls"

text \<open>The exon intervals \<open>[s, e)\<close> that hold the position \<open>p\<close>, one entry per exon index.\<close>

definition covering :: "int \<Rightarrow> int list \<Rightarrow> int list \<Rightarrow> (int \<times> int) list" where
  "covering p ts te = filter (\<lambda>(s, e). s \<le> p \<and> p < e) (zip ts te)"

text \<open>
  The lines of the expression file whose isoform the annotation index lacks, and the
  other ones, each in the order of the file.
\<close>

definition unmatched ::
  "(string \<Rightarrow> (string \<times> int) option) \<Rightarrow> (string \<times> real \<times> int) list \<Rightarrow> (string \<times> real \<times> int) list"
where
  "unmatched gene_dict input_file =
     filter (\<lambda>(isoform, fpkm, txlength). gene_dict isoform = None) input_file"

definition matched ::
  "(string \<Rightarrow> (string \<times> int) option) \<Rightarrow> (string \<times> real \<times> int) list \<Rightarrow> (string \<times> real \<times> int) list"
where
  "matched gene_dict input_file =
     filter (\<lambda>(isoform, fpkm, txlength). gene_dict isoform \<noteq> None) input_file"

text \<open>
  One pass of the loop of \<^verbatim>\<open>choose_selected_cufflinks\<close> for a line whose isoform the
  index has: the three tests of the source in one condition.
\<close>

definition iso_update :: "string \<Rightarrow> iso_entry \<Rightarrow> (string \<times> iso_entry) list \<Rightarrow> (string \<times> iso_entry) list" where
  "iso_update gene new iso_dict =
     (case map_of iso_dict gene of
        None \<Rightarrow> AList.update gene new iso_dict
      | Some best \<Rightarrow>
          (if fst (snd new) > fst (snd best)
              \<or> fst (snd new) = fst (snd best) \<and> snd (snd (snd new)) = 1 \<and> snd (snd (snd best)) = 0
              \<or> fst (snd new) = fst (snd best) \<and> fst (snd (snd new)) > fst (snd (snd best))
           then AList.update gene new iso_dict
           else iso_dict))"

text \<open>The transcripts \<^verbatim>\<open>get_parameters\<close> keeps, in the order it meets them.\<close>

definition summarized :: "(dict_key \<times> transcript list) list \<Rightarrow> transcript list" where
  "summarized tx_dict = filter (\<lambda>tx. length (chrom tx) \<le> 5) (concat (map snd tx_dict))"

text \<open>
  What a row says of its transcript. The sentinel is the string \<^verbatim>\<open>'-1'\<close> the source
  writes; the second-smallest start is the entry 1 of the sorted starts.
\<close>

definition row_of :: "transcript \<Rightarrow> parameter_row \<Rightarrow> bool" where
  "row_of tx row \<longleftrightarrow>
     Tx_ID row = tx_id tx \<and> UID row = uid tx \<and>
     transcript_len tx = Inr (Length row) \<and>
     FirstSpliceSite row =
       (if length (trans_starts tx) > 1 then IntCell (sort (trans_starts tx) ! 1)
        else StrCell ''-1'') \<and>
     LastSpliceSite row =
       (if length (trans_starts tx) > 1 then IntCell (Max (set (trans_starts tx)))
        else StrCell ''-1'') \<and>
     ATG row = (if 0 < the (ctis tx) then IntCell (the (ctis tx)) else StrCell ''-1'') \<and>
     Stop row = (if 0 < the (ctis tx) then cell_of (stop tx) else StrCell ''-1'')"

text \<open>
  The transcripts on which neither \<^verbatim>\<open>tx.ctis > 0\<close> nor \<^verbatim>\<open>len(tx)\<close> raises.
\<close>

definition summarizable :: "transcript \<Rightarrow> bool" where
  "summarizable tx \<longleftrightarrow>
     ctis tx \<noteq> None \<and> trans_ends tx \<noteq> [] \<and>
     0 \<le> Max (set (trans_ends tx)) \<and> Max (set (trans_ends tx)) \<le> sys_maxsize"

text \<open>The lines of the table that share a key, and the transcript of a line.\<close>

definition same_key :: "string \<Rightarrow> table_line list \<Rightarrow> dict_key \<Rightarrow> table_line list" where
  "same_key key tb k = filter (\<lambda>m. line_key key m = k) tb"

definition built :: "table_line \<Rightarrow> transcript" where
  "built line = projr (build_transcript line)"

text \<open>
  The exon lists of the data model: as many starts as ends, every exon a half-open
  interval with its start at or before its end, and every exon ending at or before the
  start of the next one (ascending genomic order, no overlap).
\<close>

definition ascending_exons :: "int list \<Rightarrow> int list \<Rightarrow> bool" where
  "ascending_exons gs ge \<longleftrightarrow>
     length gs = length ge \<and>
     (\<forall>k < length gs. gs ! k \<le> ge ! k) \<and>
     (\<forall>k < length gs - 1. ge ! k \<le> gs ! Suc k)"

section \<open>Transcriptomic coordinates of the exons\<close>

subsection \<open>The two loops in closed form\<close>


lemma length_running [simp]: "length (running b ls) = length ls"
  by (induction ls arbitrary: b) auto

lemma running_nth: "i < length ls \<Longrightarrow> running b ls ! i = b + sum_list (take i ls)"
proof (induction ls arbitrary: b i)
  case Nil
  then show ?case by simp
next
  case (Cons l ls)
  then show ?case by (cases i) (auto simp: algebra_simps)
qed

lemma plus_loop_closed:
  "index + length ss \<le> length ends \<Longrightarrow>
   plus_loop ss ends index b (ts, te) =
     Inr (ts @ running b (exon_lengths ss (drop index ends)),
          te @ map2 (+) (running b (exon_lengths ss (drop index ends)))
                 (exon_lengths ss (drop index ends)))"
proof (induction ss arbitrary: index b ts te)
  case Nil
  then show ?case by (simp add: exon_lengths_def)
next
  case (Cons s ss)
  from Cons.prems have lt: "index < length ends" and le: "Suc index + length ss \<le> length ends"
    by auto
  have dr: "drop index ends = ends ! index # drop (Suc index) ends"
    using lt by (simp add: Cons_nth_drop_Suc)
  show ?case
    using lt Cons.IH [OF le] by (simp add: dr exon_lengths_def Let_def add_diff_eq)
qed

lemma minus_loop_closed:
  "index + length ss \<le> length ends \<Longrightarrow>
   minus_loop ss ends index b (ts, te) =
     Inr (rev (running b (exon_lengths ss (drop index ends))) @ ts,
          rev (map2 (+) (running b (exon_lengths ss (drop index ends)))
                 (exon_lengths ss (drop index ends))) @ te)"
proof (induction ss arbitrary: index b ts te)
  case Nil
  then show ?case by (simp add: exon_lengths_def)
next
  case (Cons s ss)
  from Cons.prems have lt: "index < length ends" and le: "Suc index + length ss \<le> length ends"
    by auto
  have dr: "drop index ends = ends ! index # drop (Suc index) ends"
    using lt by (simp add: Cons_nth_drop_Suc)
  show ?case
    using lt Cons.IH [OF le] by (simp add: dr exon_lengths_def Let_def add_diff_eq)
qed

lemma exon_lengths_rev:
  "length gs = length ge \<Longrightarrow> exon_lengths (rev gs) (rev ge) = rev (exon_lengths gs ge)"
  by (simp add: exon_lengths_def zip_rev rev_map)

lemma length_exon_lengths: "length gs = length ge \<Longrightarrow> length (exon_lengths gs ge) = length gs"
  by (simp add: exon_lengths_def)

lemma last_sort_Max: "xs \<noteq> [] \<Longrightarrow> last (sort xs) = Max (set (xs::int list))"
proof -
  assume ne: "xs \<noteq> []"
  then have "sort xs \<noteq> []" by (metis length_sort length_0_conv)
  then have mem: "last (sort xs) \<in> set xs" using last_in_set [of "sort xs"] by simp
  have "y \<le> last (sort xs)" if "y \<in> set xs" for y
  proof -
    from that have "y \<in> set (sort xs)" by simp
    then obtain i where i: "i < length (sort xs)" "sort xs ! i = y"
      by (auto simp: in_set_conv_nth simp del: set_sort length_sort)
    have "sort xs ! i \<le> sort xs ! (length (sort xs) - 1)"
      using i by (intro sorted_nth_mono) auto
    then show ?thesis using i \<open>sort xs \<noteq> []\<close> by (simp add: last_conv_nth)
  qed
  then show ?thesis using mem by (intro Max_eqI [symmetric]) auto
qed

lemma transcript_len_Max:
  "trans_ends t \<noteq> [] \<Longrightarrow> transcript_len t = Inr (Max (set (trans_ends t)))"
proof -
  assume ne: "trans_ends t \<noteq> []"
  then have "rev (sort (trans_ends t)) \<noteq> []" by (metis length_sort length_0_conv rev_is_Nil_conv)
  then obtain x xs where eq: "rev (sort (trans_ends t)) = x # xs" by (cases "rev (sort (trans_ends t))") auto
  then have "x = hd (rev (sort (trans_ends t)))" by simp
  also have "\<dots> = last (sort (trans_ends t))" by (simp add: hd_rev)
  also have "\<dots> = Max (set (trans_ends t))" using ne by (rule last_sort_Max)
  finally show ?thesis by (simp add: transcript_len_def eq)
qed

lemma running_cover:
  "\<forall>l \<in> set ls. 0 \<le> l \<Longrightarrow>
   length (covering p (running b ls) (map2 (+) (running b ls) ls)) =
     (if b \<le> p \<and> p < b + sum_list ls then 1 else 0)"
proof (induction ls arbitrary: b)
  case Nil
  then show ?case by (simp add: covering_def)
next
  case (Cons l ls)
  have nn: "0 \<le> sum_list ls" using Cons.prems by (simp add: sum_list_nonneg)
  have l0: "0 \<le> l" using Cons.prems by simp
  have ih: "length (covering p (running (b + l) ls) (map2 (+) (running (b + l) ls) ls)) =
     (if b + l \<le> p \<and> p < b + l + sum_list ls then 1 else 0)"
    using Cons.IH [of "b + l"] Cons.prems by simp
  show ?case using ih nn l0 by (auto simp: covering_def)
qed

lemma covering_rev:
  "length ts = length te \<Longrightarrow> length (covering p (rev ts) (rev te)) = length (covering p ts te)"
  by (simp add: covering_def zip_rev flip: rev_filter)

lemma running_Max:
  "ls \<noteq> [] \<Longrightarrow> \<forall>l \<in> set ls. 0 \<le> l \<Longrightarrow>
   Max (set (map2 (+) (running b ls) ls)) = b + sum_list ls"
proof (induction ls arbitrary: b)
  case Nil
  then show ?case by simp
next
  case (Cons l ls)
  show ?case
  proof (cases ls)
    case Nil
    then show ?thesis by simp
  next
    case (Cons l' ls')
    then have ne: "ls \<noteq> []" by simp
    have nn: "0 \<le> sum_list ls" using Cons.prems by (simp add: sum_list_nonneg)
    have ih: "Max (set (map2 (+) (running (b + l) ls) ls)) = b + l + sum_list ls"
      using Cons.IH [OF ne, of "b + l"] Cons.prems by simp
    have ne2: "set (map2 (+) (running (b + l) ls) ls) \<noteq> {}" using ne by (cases ls) auto
    show ?thesis using ih nn ne2 by simp
  qed
qed


lemma coords_plus:
  assumes "strand self = ''+''" "length (genomic_starts self) = length (genomic_ends self)"
    and "trans_starts self = []" "trans_ends self = []"
  shows "get_transcriptomic_coordinates self =
     Inr (self\<lparr>trans_starts := running 0 (exon_lengths (genomic_starts self) (genomic_ends self)),
               trans_ends := map2 (+) (running 0 (exon_lengths (genomic_starts self) (genomic_ends self)))
                               (exon_lengths (genomic_starts self) (genomic_ends self))\<rparr>)"
  using assms plus_loop_closed [of 0 "genomic_starts self" "genomic_ends self" 0 "[]" "[]"]
  by (simp add: get_transcriptomic_coordinates_def)

lemma coords_minus:
  assumes "strand self = ''-''" "length (genomic_starts self) = length (genomic_ends self)"
    and "trans_starts self = []" "trans_ends self = []"
  shows "get_transcriptomic_coordinates self =
     Inr (self\<lparr>trans_starts := rev (running 0 (rev (exon_lengths (genomic_starts self) (genomic_ends self)))),
               trans_ends := rev (map2 (+) (running 0 (rev (exon_lengths (genomic_starts self) (genomic_ends self))))
                               (rev (exon_lengths (genomic_starts self) (genomic_ends self))))\<rparr>)"
  using assms
    minus_loop_closed [of 0 "rev (genomic_starts self)" "rev (genomic_ends self)" 0 "[]" "[]"]
  by (simp add: get_transcriptomic_coordinates_def exon_lengths_rev)

lemma get_start_stop_fields [simp]:
  "trans_starts (get_start_stop self) = trans_starts self"
  "trans_ends (get_start_stop self) = trans_ends self"
  "genomic_starts (get_start_stop self) = genomic_starts self"
  "genomic_ends (get_start_stop self) = genomic_ends self"
  "strand (get_start_stop self) = strand self"
  "cdss (get_start_stop self) = cdss self"
  "cdse (get_start_stop self) = cdse self"
  "uid (get_start_stop self) = uid self"
  "tx_id (get_start_stop self) = tx_id self"
  "chrom (get_start_stop self) = chrom self"
  "gid (get_start_stop self) = gid self"
  by (simp_all add: get_start_stop_def split: prod.splits)

lemma Transcript_built:
  assumes "sd = ''+'' \<or> sd = ''-''" and "length gs = length ge"
  obtains t where
    "Transcript i c sd a b cs ce gs ge g u = Inr t"
    "trans_starts t =
       (if sd = ''+'' then running 0 (exon_lengths gs ge)
        else rev (running 0 (rev (exon_lengths gs ge))))"
    "trans_ends t =
       (if sd = ''+'' then map2 (+) (running 0 (exon_lengths gs ge)) (exon_lengths gs ge)
        else rev (map2 (+) (running 0 (rev (exon_lengths gs ge))) (rev (exon_lengths gs ge))))"
    "genomic_starts t = gs" "genomic_ends t = ge" "strand t = sd" "cdss t = cs" "cdse t = ce"
    "uid t = u" "tx_id t = i" "chrom t = c" "gid t = g"
  using assms by (auto simp: Transcript_def coords_plus coords_minus)


lemma plus_coords_nth:
  assumes "k < length ls"
  shows "running 0 ls ! k = sum_list (take k ls)"
    and "map2 (+) (running 0 ls) ls ! k = sum_list (take k ls) + ls ! k"
  using assms by (simp_all add: running_nth)

lemma minus_coords_nth:
  assumes "k < length ls"
  shows "rev (running 0 (rev ls)) ! k = sum_list (drop (Suc k) ls)"
    and "rev (map2 (+) (running 0 (rev ls)) (rev ls)) ! k = sum_list (drop (Suc k) ls) + ls ! k"
proof -
  let ?j = "length ls - Suc k"
  have j: "?j < length ls" using assms by simp
  have tk: "take ?j (rev ls) = rev (drop (Suc k) ls)"
    using assms by (simp add: take_rev)
  have r: "running 0 (rev ls) ! ?j = sum_list (drop (Suc k) ls)"
    using j by (simp add: running_nth tk)
  show "rev (running 0 (rev ls)) ! k = sum_list (drop (Suc k) ls)"
    using assms r by (simp add: rev_nth)
  have "rev ls ! ?j = ls ! k" using assms j by (simp add: rev_nth)
  then show "rev (map2 (+) (running 0 (rev ls)) (rev ls)) ! k = sum_list (drop (Suc k) ls) + ls ! k"
    using assms r j by (simp add: rev_nth)
qed

lemma exon_lengths_nth:
  "length gs = length ge \<Longrightarrow> k < length gs \<Longrightarrow> exon_lengths gs ge ! k = ge ! k - gs ! k"
  by (simp add: exon_lengths_def)

lemma exon_lengths_nonneg:
  "list_all2 (\<le>) gs ge \<Longrightarrow> \<forall>l \<in> set (exon_lengths gs ge). 0 \<le> l"
  by (auto simp: exon_lengths_def list_all2_iff)

subsection \<open>Index alignment\<close>

text \<open>
  Claim C5. For a transcript built on the \<open>+\<close> or the \<open>-\<close> strand from exon lists of
  one length, the constructor returns an object whose transcriptomic starts and ends
  have one entry per genomic exon, and at every index \<open>k\<close> the entry belongs to genomic
  exon \<open>k\<close>: its length \<open>trans_ends ! k - trans_starts ! k\<close> is the genomic length
  \<open>ge ! k - gs ! k\<close>, and its start is the total length of the exons transcribed before
  exon \<open>k\<close>, which are the exons of smaller index on the \<open>+\<close> strand and the exons of
  larger index on the \<open>-\<close> strand (the reverse processing order, recorded at the
  original index).
\<close>

theorem index_alignment:
  assumes "sd = ''+'' \<or> sd = ''-''" and "length gs = length ge"
  shows "\<exists>t. Transcript i c sd a b cs ce gs ge g u = Inr t \<and>
           length (trans_starts t) = length gs \<and> length (trans_ends t) = length gs \<and>
           (\<forall>k < length gs.
              trans_ends t ! k - trans_starts t ! k = ge ! k - gs ! k \<and>
              trans_starts t ! k =
                (if sd = ''+'' then sum_list (take k (exon_lengths gs ge))
                 else sum_list (drop (Suc k) (exon_lengths gs ge))))"
proof -
  let ?ls = "exon_lengths gs ge"
  have len: "length ?ls = length gs" using assms(2) by (rule length_exon_lengths)
  obtain t where t: "Transcript i c sd a b cs ce gs ge g u = Inr t"
    and ts: "trans_starts t =
       (if sd = ''+'' then running 0 ?ls else rev (running 0 (rev ?ls)))"
    and te: "trans_ends t =
       (if sd = ''+'' then map2 (+) (running 0 ?ls) ?ls
        else rev (map2 (+) (running 0 (rev ?ls)) (rev ?ls)))"
    using assms by (rule Transcript_built)
  have "trans_ends t ! k - trans_starts t ! k = ge ! k - gs ! k \<and>
        trans_starts t ! k =
          (if sd = ''+'' then sum_list (take k ?ls) else sum_list (drop (Suc k) ?ls))"
    if k: "k < length gs" for k
  proof -
    have k': "k < length ?ls" using k len by simp
    have d: "?ls ! k = ge ! k - gs ! k" using assms(2) k by (rule exon_lengths_nth)
    show ?thesis
    proof (cases "sd = ''+''")
      case True
      then show ?thesis using plus_coords_nth [OF k'] d by (simp add: ts te)
    next
      case False
      then show ?thesis using minus_coords_nth [OF k'] d by (simp add: ts te)
    qed
  qed
  moreover have "length (trans_starts t) = length gs" "length (trans_ends t) = length gs"
    using len by (simp_all add: ts te)
  ultimately show ?thesis using t by blast
qed

theorem index_alignment_witness:
  "\<exists>t. Transcript ''NM_1'' ''chr1'' ''-'' 100 320 120 310 [100, 300] [150, 320] ''G1'' 1 = Inr t \<and>
       length (trans_starts t) = 2 \<and> length (trans_ends t) = 2 \<and>
       trans_starts t ! 0 = 20 \<and> trans_ends t ! 0 - trans_starts t ! 0 = 150 - 100 \<and>
       trans_starts t ! 1 = 0 \<and> trans_ends t ! 1 - trans_starts t ! 1 = 320 - 300"
proof -
  have "\<exists>t. Transcript ''NM_1'' ''chr1'' ''-'' 100 320 120 310 [100, 300] [150, 320] ''G1'' 1 = Inr t \<and>
           length (trans_starts t) = length [100, 300 :: int] \<and>
           length (trans_ends t) = length [100, 300 :: int] \<and>
           (\<forall>k < length [100, 300 :: int].
              trans_ends t ! k - trans_starts t ! k = [150, 320] ! k - [100, 300] ! k \<and>
              trans_starts t ! k =
                (if ''-'' = ''+'' then sum_list (take k (exon_lengths [100, 300] [150, 320]))
                 else sum_list (drop (Suc k) (exon_lengths [100, 300] [150, 320]))))"
    by (rule index_alignment) simp_all
  then obtain t where
    t: "Transcript ''NM_1'' ''chr1'' ''-'' 100 320 120 310 [100, 300] [150, 320] ''G1'' 1 = Inr t"
    and ln: "length (trans_starts t) = length [100, 300 :: int]"
      "length (trans_ends t) = length [100, 300 :: int]"
    and al: "\<forall>k < length [100, 300 :: int].
              trans_ends t ! k - trans_starts t ! k = [150, 320] ! k - [100, 300] ! k \<and>
              trans_starts t ! k =
                (if ''-'' = ''+'' then sum_list (take k (exon_lengths [100, 300] [150, 320]))
                 else sum_list (drop (Suc k) (exon_lengths [100, 300] [150, 320])))"
    by blast
  have "trans_ends t ! 0 - trans_starts t ! 0 = 150 - 100 \<and> trans_starts t ! 0 = 20"
    using al [rule_format, of 0] by (simp add: exon_lengths_def)
  moreover have "trans_ends t ! 1 - trans_starts t ! 1 = 320 - 300 \<and> trans_starts t ! 1 = 0"
    using al [rule_format, of 1] by (simp add: exon_lengths_def)
  ultimately show ?thesis using t ln by simp
qed

subsection \<open>Coverage\<close>

text \<open>
  Claim C1. For a transcript built on either strand from a non-empty list of exons
  \<open>[gs ! k, ge ! k)\<close> with \<open>gs ! k \<le> ge ! k\<close>, the length operation returns the largest
  transcriptomic exon end \<open>n\<close>, and the transcriptomic exon intervals tile \<open>[0, n)\<close>:
  every position \<open>p\<close> with \<open>0 \<le> p < n\<close> lies in exactly one of them (no gap, no
  overlap) and every other position in none. The ascending order of the exons is not
  needed for this.
\<close>

theorem coordinate_coverage:
  assumes "sd = ''+'' \<or> sd = ''-''" and "gs \<noteq> []" and "list_all2 (\<le>) gs ge"
  shows "\<exists>t n. Transcript i c sd a b cs ce gs ge g u = Inr t \<and>
           transcript_len t = Inr n \<and> n = Max (set (trans_ends t)) \<and>
           (\<forall>p. length (covering p (trans_starts t) (trans_ends t)) =
                  (if 0 \<le> p \<and> p < n then 1 else 0))"
proof -
  let ?ls = "exon_lengths gs ge"
  have eq: "length gs = length ge" using assms(3) by (rule list_all2_lengthD)
  have len: "length ?ls = length gs" using eq by (rule length_exon_lengths)
  have ne: "?ls \<noteq> []" using len assms(2) by auto
  have nn: "\<forall>l \<in> set ?ls. 0 \<le> l" using assms(3) by (rule exon_lengths_nonneg)
  have nnr: "\<forall>l \<in> set (rev ?ls). 0 \<le> l" using nn by simp
  obtain t where t: "Transcript i c sd a b cs ce gs ge g u = Inr t"
    and ts: "trans_starts t =
       (if sd = ''+'' then running 0 ?ls else rev (running 0 (rev ?ls)))"
    and te: "trans_ends t =
       (if sd = ''+'' then map2 (+) (running 0 ?ls) ?ls
        else rev (map2 (+) (running 0 (rev ?ls)) (rev ?ls)))"
    using assms(1) eq by (rule Transcript_built)
  have "length (trans_ends t) = length ?ls" by (simp add: te)
  then have te_ne: "trans_ends t \<noteq> []" using ne by auto
  have mx: "Max (set (trans_ends t)) = sum_list ?ls"
  proof (cases "sd = ''+''")
    case True
    then show ?thesis using running_Max [OF ne nn, of 0] by (simp add: te)
  next
    case False
    have "rev ?ls \<noteq> []" using ne by simp
    from running_Max [OF this nnr, of 0] show ?thesis using False by (simp add: te)
  qed
  have cov: "length (covering p (trans_starts t) (trans_ends t)) =
               (if 0 \<le> p \<and> p < sum_list ?ls then 1 else 0)" for p
  proof (cases "sd = ''+''")
    case True
    then show ?thesis using running_cover [OF nn, of p 0] by (simp add: ts te)
  next
    case False
    have "length (covering p (rev (running 0 (rev ?ls)))
                    (rev (map2 (+) (running 0 (rev ?ls)) (rev ?ls)))) =
          length (covering p (running 0 (rev ?ls)) (map2 (+) (running 0 (rev ?ls)) (rev ?ls)))"
      by (rule covering_rev) simp
    then show ?thesis using False running_cover [OF nnr, of p 0] by (simp add: ts te)
  qed
  have "transcript_len t = Inr (Max (set (trans_ends t)))"
    using te_ne by (rule transcript_len_Max)
  then show ?thesis using t mx cov by auto
qed

theorem coordinate_coverage_witness:
  "\<exists>t. Transcript ''NM_1'' ''chr1'' ''-'' 100 320 120 310 [100, 300] [150, 320] ''G1'' 1 = Inr t \<and>
       transcript_len t = Inr 70 \<and> Max (set (trans_ends t)) = 70 \<and>
       trans_starts t = [20, 0] \<and> trans_ends t = [70, 20] \<and>
       length (covering 0 (trans_starts t) (trans_ends t)) = 1 \<and>
       length (covering 19 (trans_starts t) (trans_ends t)) = 1 \<and>
       length (covering 20 (trans_starts t) (trans_ends t)) = 1 \<and>
       length (covering 69 (trans_starts t) (trans_ends t)) = 1 \<and>
       length (covering 70 (trans_starts t) (trans_ends t)) = 0 \<and>
       length (covering (- 1) (trans_starts t) (trans_ends t)) = 0"
proof -
  have "\<exists>t n. Transcript ''NM_1'' ''chr1'' ''-'' 100 320 120 310 [100, 300] [150, 320] ''G1'' 1 = Inr t \<and>
           transcript_len t = Inr n \<and> n = Max (set (trans_ends t)) \<and>
           (\<forall>p. length (covering p (trans_starts t) (trans_ends t)) =
                  (if 0 \<le> p \<and> p < n then 1 else 0))"
    by (rule coordinate_coverage) simp_all
  then obtain t n where
    t: "Transcript ''NM_1'' ''chr1'' ''-'' 100 320 120 310 [100, 300] [150, 320] ''G1'' 1 = Inr t"
    and n: "transcript_len t = Inr n" "n = Max (set (trans_ends t))"
    and cov: "\<And>p. length (covering p (trans_starts t) (trans_ends t)) =
                  (if 0 \<le> p \<and> p < n then 1 else 0)"
    by auto
  have val: "trans_starts t = [20, 0]" "trans_ends t = [70, 20]"
    using t by (auto simp: Transcript_def get_transcriptomic_coordinates_def)
  have n70: "n = 70" using n(2) by (simp add: val)
  show ?thesis
    using t n cov [of 0] cov [of 19] cov [of 20] cov [of 69] cov [of 70] cov [of "- 1"]
    by (simp add: n70 val)
qed

section \<open>Coding landmarks\<close>

lemma last_hit:
  "\<forall>x \<in> set zs. p x \<longrightarrow> f x = v \<Longrightarrow>
   foldl (\<lambda>acc x. if p x then Some (f x) else acc) a zs =
     (if \<exists>x \<in> set zs. p x then Some v else a)"
  by (induction zs arbitrary: a) auto

lemma start_stop_loop_folds:
  "start_stop_loop sd cs ce zs (c, s) =
     (if sd = ''+'' then
        (foldl (\<lambda>acc (es, ee, t). if es \<le> cs \<and> cs \<le> ee then Some (t + cs - es) else acc) c zs,
         foldl (\<lambda>acc (es, ee, t). if es \<le> ce \<and> ce \<le> ee then Some (t + ce - es) else acc) s zs)
      else
        (foldl (\<lambda>acc (es, ee, t). if es \<le> ce \<and> ce \<le> ee then Some (t + ee - ce) else acc) c zs,
         foldl (\<lambda>acc (es, ee, t). if es \<le> cs \<and> cs \<le> ee then Some (t + ee - cs) else acc) s zs))"
  by (induction zs arbitrary: c s) auto

lemma Transcript_landmarks:
  assumes "Transcript i c sd a b cs ce gs ge g u = Inr t"
  shows "cs = ce \<Longrightarrow> ctis t = Some (- 1) \<and> stop t = Some (- 1) \<and> tx_type t = Some ''non-coding''"
    and "cs \<noteq> ce \<Longrightarrow>
         (ctis t, stop t) =
           start_stop_loop sd cs ce (zip gs (zip ge (trans_starts t))) (None, None) \<and>
         tx_type t = Some ''coding''"
  using assms
  by (auto simp: Transcript_def get_transcriptomic_coordinates_def get_start_stop_def
      split: if_splits sum.splits prod.splits)


lemma ascending_chain:
  assumes "ascending_exons gs ge"
  shows "j < m \<Longrightarrow> m < length gs \<Longrightarrow> ge ! j \<le> gs ! m"
proof (induction m)
  case 0
  then show ?case by simp
next
  case (Suc m)
  have adj: "ge ! m \<le> gs ! Suc m" using assms Suc.prems by (simp add: ascending_exons_def)
  show ?case
  proof (cases "j = m")
    case True
    then show ?thesis using adj by simp
  next
    case False
    then have "ge ! j \<le> gs ! m" using Suc by simp
    moreover have "gs ! m \<le> ge ! m" using assms Suc.prems by (simp add: ascending_exons_def)
    ultimately show ?thesis using adj by simp
  qed
qed

lemma containing_convex:
  assumes asc: "ascending_exons gs ge"
    and "j \<le> m" "m \<le> k" "k < length gs"
    and "gs ! j \<le> x \<and> x \<le> ge ! j" "gs ! k \<le> x \<and> x \<le> ge ! k"
  shows "gs ! m \<le> x \<and> x \<le> ge ! m"
proof -
  have m: "gs ! m \<le> ge ! m" using asc assms(3,4) by (simp add: ascending_exons_def)
  have lo: "gs ! m \<le> x"
  proof (cases "m = k")
    case True then show ?thesis using assms(6) by simp
  next
    case False
    then have "ge ! m \<le> gs ! k" using ascending_chain [OF asc, of m k] assms(3,4) by simp
    then show ?thesis using m assms(6) by simp
  qed
  have hi: "x \<le> ge ! m"
  proof (cases "j = m")
    case True then show ?thesis using assms(5) by simp
  next
    case False
    then have "ge ! j \<le> gs ! m" using ascending_chain [OF asc, of j m] assms(2,3,4) by simp
    then show ?thesis using m assms(5) by simp
  qed
  show ?thesis using lo hi by simp
qed

lemma containing_agree_le:
  assumes asc: "ascending_exons gs ge"
    and adj: "\<And>k. Suc k < length gs \<Longrightarrow> gs ! k \<le> x \<and> x \<le> ge ! k \<Longrightarrow>
                gs ! Suc k \<le> x \<and> x \<le> ge ! Suc k \<Longrightarrow> pot (Suc k) = (pot k :: int)"
    and j: "gs ! j \<le> x \<and> x \<le> ge ! j"
  shows "j \<le> k \<Longrightarrow> k < length gs \<Longrightarrow> gs ! k \<le> x \<and> x \<le> ge ! k \<Longrightarrow> pot k = pot j"
proof (induction k)
  case 0
  then show ?case by simp
next
  case (Suc k)
  show ?case
  proof (cases "j = Suc k")
    case True
    then show ?thesis by simp
  next
    case False
    then have jk: "j \<le> k" using Suc.prems by simp
    have k: "gs ! k \<le> x \<and> x \<le> ge ! k"
      using containing_convex [OF asc jk _ Suc.prems(2) j Suc.prems(3)] by simp
    have "pot k = pot j" using Suc.IH jk Suc.prems(2) k by simp
    moreover have "pot (Suc k) = pot k" using adj Suc.prems(2,3) k by simp
    ultimately show ?thesis by simp
  qed
qed

lemma containing_agree:
  assumes asc: "ascending_exons gs ge"
    and adj: "\<And>k. Suc k < length gs \<Longrightarrow> gs ! k \<le> x \<and> x \<le> ge ! k \<Longrightarrow>
                gs ! Suc k \<le> x \<and> x \<le> ge ! Suc k \<Longrightarrow> pot (Suc k) = (pot k :: int)"
    and "j < length gs" "gs ! j \<le> x \<and> x \<le> ge ! j"
    and "k < length gs" "gs ! k \<le> x \<and> x \<le> ge ! k"
  shows "pot j = pot k"
proof (cases "j \<le> k")
  case True
  then show ?thesis
    using containing_agree_le [where pot = pot and x = x and j = j and k = k, OF asc adj assms(4)]
      assms(5,6) by simp
next
  case False
  then have "k \<le> j" by simp
  then show ?thesis
    using containing_agree_le [where pot = pot and x = x and j = k and k = j, OF asc adj assms(6)]
      assms(3,4) by simp
qed

lemma running_step_plus:
  "Suc k < length ls \<Longrightarrow> running 0 ls ! Suc k = running 0 ls ! k + ls ! k"
  by (simp add: running_nth take_Suc_conv_app_nth)

lemma running_step_minus:
  assumes "Suc k < length ls"
  shows "rev (running 0 (rev ls)) ! k = rev (running 0 (rev ls)) ! Suc k + ls ! Suc k"
proof -
  have "drop (Suc k) ls = ls ! Suc k # drop (Suc (Suc k)) ls"
    using assms by (simp add: Cons_nth_drop_Suc)
  then show ?thesis
    using assms minus_coords_nth(1) [of k ls] minus_coords_nth(1) [of "Suc k" ls] by simp
qed

lemma touching:
  assumes "ascending_exons gs ge" "Suc k < length gs"
    and "gs ! k \<le> x \<and> x \<le> ge ! k" "gs ! Suc k \<le> x \<and> x \<le> ge ! Suc k"
  shows "ge ! k = gs ! Suc k"
  using assms by (auto simp: ascending_exons_def dest!: spec [of _ k])


lemma last_hit_zip:
  assumes len: "length ge = length gs" "length ts = length gs"
    and agree: "\<And>j. j < length gs \<Longrightarrow> P (gs ! j) (ge ! j) \<Longrightarrow> F (gs ! j) (ge ! j) (ts ! j) = v"
    and k: "k < length gs" "P (gs ! k) (ge ! k)"
  shows "foldl (\<lambda>acc (es, ee, t). if P es ee then Some (F es ee t) else acc) a
           (zip gs (zip ge ts)) = Some v"
proof -
  let ?zs = "zip gs (zip ge ts)"
  have nth: "?zs ! j = (gs ! j, ge ! j, ts ! j)" if "j < length gs" for j
    using that len by simp
  have lz: "length ?zs = length gs" using len by simp
  have all: "\<forall>z \<in> set ?zs. (case z of (es, ee, t) \<Rightarrow> P es ee) \<longrightarrow>
               (case z of (es, ee, t) \<Rightarrow> F es ee t) = v"
  proof
    fix z assume "z \<in> set ?zs"
    then obtain j where j: "j < length ?zs" "?zs ! j = z" by (auto simp: in_set_conv_nth)
    then have "z = (gs ! j, ge ! j, ts ! j)" using nth lz by auto
    then show "(case z of (es, ee, t) \<Rightarrow> P es ee) \<longrightarrow> (case z of (es, ee, t) \<Rightarrow> F es ee t) = v"
      using agree j(1) lz by auto
  qed
  have "?zs ! k \<in> set ?zs" using k(1) lz by (metis nth_mem)
  then have ex: "\<exists>z \<in> set ?zs. (case z of (es, ee, t) \<Rightarrow> P es ee)"
    using nth [OF k(1)] k(2) by (intro bexI [of _ "?zs ! k"]) auto
  have "foldl (\<lambda>acc z. if (case z of (es, ee, t) \<Rightarrow> P es ee)
                        then Some (case z of (es, ee, t) \<Rightarrow> F es ee t) else acc) a ?zs = Some v"
    using last_hit [OF all, of a] ex by simp
  moreover have "(\<lambda>acc (es, ee, t). if P es ee then Some (F es ee t) else acc) =
        (\<lambda>acc z. if (case z of (es, ee, t) \<Rightarrow> P es ee)
                        then Some (case z of (es, ee, t) \<Rightarrow> F es ee t) else acc)"
    by (auto simp: fun_eq_iff)
  ultimately show ?thesis by simp
qed

lemma plus_agree:
  assumes asc: "ascending_exons gs ge"
    and "j < length gs" "gs ! j \<le> x \<and> x \<le> ge ! j"
    and "k < length gs" "gs ! k \<le> x \<and> x \<le> ge ! k"
  shows "running 0 (exon_lengths gs ge) ! j - gs ! j = running 0 (exon_lengths gs ge) ! k - gs ! k"
proof (rule containing_agree
    [where pot = "\<lambda>k. running 0 (exon_lengths gs ge) ! k - gs ! k" and x = x, OF asc _ assms(2-5)])
  fix k
  assume k: "Suc k < length gs" "gs ! k \<le> x \<and> x \<le> ge ! k" "gs ! Suc k \<le> x \<and> x \<le> ge ! Suc k"
  have eq: "length gs = length ge" using asc by (simp add: ascending_exons_def)
  have t: "ge ! k = gs ! Suc k" using asc k by (rule touching)
  have "running 0 (exon_lengths gs ge) ! Suc k =
        running 0 (exon_lengths gs ge) ! k + exon_lengths gs ge ! k"
    using k(1) eq by (intro running_step_plus) (simp add: length_exon_lengths)
  then show "running 0 (exon_lengths gs ge) ! Suc k - gs ! Suc k =
             running 0 (exon_lengths gs ge) ! k - gs ! k"
    using t k(1) eq by (simp add: exon_lengths_nth)
qed

lemma minus_agree:
  assumes asc: "ascending_exons gs ge"
    and "j < length gs" "gs ! j \<le> x \<and> x \<le> ge ! j"
    and "k < length gs" "gs ! k \<le> x \<and> x \<le> ge ! k"
  shows "rev (running 0 (rev (exon_lengths gs ge))) ! j + ge ! j =
         rev (running 0 (rev (exon_lengths gs ge))) ! k + ge ! k"
proof (rule containing_agree
    [where pot = "\<lambda>k. rev (running 0 (rev (exon_lengths gs ge))) ! k + ge ! k" and x = x,
      OF asc _ assms(2-5)])
  fix k
  assume k: "Suc k < length gs" "gs ! k \<le> x \<and> x \<le> ge ! k" "gs ! Suc k \<le> x \<and> x \<le> ge ! Suc k"
  have eq: "length gs = length ge" using asc by (simp add: ascending_exons_def)
  have t: "ge ! k = gs ! Suc k" using asc k by (rule touching)
  have "rev (running 0 (rev (exon_lengths gs ge))) ! k =
        rev (running 0 (rev (exon_lengths gs ge))) ! Suc k + exon_lengths gs ge ! Suc k"
    using k(1) eq by (intro running_step_minus) (simp add: length_exon_lengths)
  then show "rev (running 0 (rev (exon_lengths gs ge))) ! Suc k + ge ! Suc k =
             rev (running 0 (rev (exon_lengths gs ge))) ! k + ge ! k"
    using t k(1) eq by (simp add: exon_lengths_nth)
qed

text \<open>
  Claim C4. For a transcript built on either strand from ascending, non-overlapping
  exons: when the CDS start equals the CDS end, the start codon and the stop codon
  positions are both -1 and the transcript is non-coding. Otherwise it is coding, and
  for every exon \<open>k\<close> with \<open>gs ! k \<le> cs \<le> ge ! k\<close> the start codon position on the \<open>+\<close>
  strand is \<open>trans_starts ! k + (cs - gs ! k)\<close> and the stop codon position on the \<open>-\<close>
  strand is \<open>trans_starts ! k + (ge ! k - cs)\<close>; for every exon \<open>k\<close> with
  \<open>gs ! k \<le> ce \<le> ge ! k\<close> the stop codon position on the \<open>+\<close> strand is
  \<open>trans_starts ! k + (ce - gs ! k)\<close> and the start codon position on the \<open>-\<close> strand
  is \<open>trans_starts ! k + (ge ! k - ce)\<close>. Two exons that both hold the coordinate touch
  there, and give the same position.
\<close>

theorem coding_landmarks:
  assumes sd: "sd = ''+'' \<or> sd = ''-''" and asc: "ascending_exons gs ge"
  shows "\<exists>t. Transcript i c sd a b cs ce gs ge g u = Inr t \<and>
     (cs = ce \<longrightarrow>
        ctis t = Some (- 1) \<and> stop t = Some (- 1) \<and> tx_type t = Some ''non-coding'') \<and>
     (cs \<noteq> ce \<longrightarrow>
        tx_type t = Some ''coding'' \<and>
        (\<forall>k < length gs.
           (gs ! k \<le> cs \<and> cs \<le> ge ! k \<longrightarrow>
              (sd = ''+'' \<longrightarrow> ctis t = Some (trans_starts t ! k + (cs - gs ! k))) \<and>
              (sd = ''-'' \<longrightarrow> stop t = Some (trans_starts t ! k + (ge ! k - cs)))) \<and>
           (gs ! k \<le> ce \<and> ce \<le> ge ! k \<longrightarrow>
              (sd = ''+'' \<longrightarrow> stop t = Some (trans_starts t ! k + (ce - gs ! k))) \<and>
              (sd = ''-'' \<longrightarrow> ctis t = Some (trans_starts t ! k + (ge ! k - ce))))))"
proof -
  let ?ls = "exon_lengths gs ge"
  have eq: "length gs = length ge" using asc by (simp add: ascending_exons_def)
  have len: "length ?ls = length gs" using eq by (rule length_exon_lengths)
  obtain t where t: "Transcript i c sd a b cs ce gs ge g u = Inr t"
    and ts: "trans_starts t =
       (if sd = ''+'' then running 0 ?ls else rev (running 0 (rev ?ls)))"
    using sd eq by (rule Transcript_built)
  have lts: "length (trans_starts t) = length gs" using len by (simp add: ts)
  have lge: "length ge = length gs" using eq by simp
  have non: "cs = ce \<Longrightarrow>
      ctis t = Some (- 1) \<and> stop t = Some (- 1) \<and> tx_type t = Some ''non-coding''"
    using t by (rule Transcript_landmarks(1))
  have cod: "tx_type t = Some ''coding''"
    and loop: "(ctis t, stop t) =
      start_stop_loop sd cs ce (zip gs (zip ge (trans_starts t))) (None, None)"
    if "cs \<noteq> ce"
    using Transcript_landmarks(2) [OF t that] by simp_all
  have plus: "foldl (\<lambda>acc (es, ee, t). if es \<le> x \<and> x \<le> ee then Some (t + x - es) else acc)
                 None (zip gs (zip ge (trans_starts t))) =
               Some (trans_starts t ! k + (x - gs ! k))"
    if "sd = ''+''" "k < length gs" "gs ! k \<le> x \<and> x \<le> ge ! k" for x k
  proof (rule last_hit_zip
      [where P = "\<lambda>es ee. es \<le> x \<and> x \<le> ee" and F = "\<lambda>es ee t. t + x - es" and k = k,
        OF lge lts _ that(2,3)])
    fix j assume j: "j < length gs" "gs ! j \<le> x \<and> x \<le> ge ! j"
    from plus_agree [OF asc j that(2,3)] that(1)
    show "trans_starts t ! j + x - gs ! j = trans_starts t ! k + (x - gs ! k)"
      by (simp add: ts)
  qed
  have minus: "foldl (\<lambda>acc (es, ee, t). if es \<le> x \<and> x \<le> ee then Some (t + ee - x) else acc)
                 None (zip gs (zip ge (trans_starts t))) =
               Some (trans_starts t ! k + (ge ! k - x))"
    if "sd = ''-''" "k < length gs" "gs ! k \<le> x \<and> x \<le> ge ! k" for x k
  proof (rule last_hit_zip
      [where P = "\<lambda>es ee. es \<le> x \<and> x \<le> ee" and F = "\<lambda>es ee t. t + ee - x" and k = k,
        OF lge lts _ that(2,3)])
    fix j assume j: "j < length gs" "gs ! j \<le> x \<and> x \<le> ge ! j"
    from minus_agree [OF asc j that(2,3)] that(1)
    show "trans_starts t ! j + ge ! j - x = trans_starts t ! k + (ge ! k - x)"
      by (simp add: ts)
  qed
  have marks:
    "(gs ! k \<le> cs \<and> cs \<le> ge ! k \<longrightarrow>
        (sd = ''+'' \<longrightarrow> ctis t = Some (trans_starts t ! k + (cs - gs ! k))) \<and>
        (sd = ''-'' \<longrightarrow> stop t = Some (trans_starts t ! k + (ge ! k - cs)))) \<and>
     (gs ! k \<le> ce \<and> ce \<le> ge ! k \<longrightarrow>
        (sd = ''+'' \<longrightarrow> stop t = Some (trans_starts t ! k + (ce - gs ! k))) \<and>
        (sd = ''-'' \<longrightarrow> ctis t = Some (trans_starts t ! k + (ge ! k - ce))))"
    if ne: "cs \<noteq> ce" and k: "k < length gs" for k
  proof -
    have folds: "(ctis t, stop t) =
      (if sd = ''+'' then
        (foldl (\<lambda>acc (es, ee, t). if es \<le> cs \<and> cs \<le> ee then Some (t + cs - es) else acc) None
           (zip gs (zip ge (trans_starts t))),
         foldl (\<lambda>acc (es, ee, t). if es \<le> ce \<and> ce \<le> ee then Some (t + ce - es) else acc) None
           (zip gs (zip ge (trans_starts t))))
      else
        (foldl (\<lambda>acc (es, ee, t). if es \<le> ce \<and> ce \<le> ee then Some (t + ee - ce) else acc) None
           (zip gs (zip ge (trans_starts t))),
         foldl (\<lambda>acc (es, ee, t). if es \<le> cs \<and> cs \<le> ee then Some (t + ee - cs) else acc) None
           (zip gs (zip ge (trans_starts t)))))"
      using loop [OF ne] by (simp only: start_stop_loop_folds)
    show ?thesis
    proof (cases "sd = ''+''")
      case True
      then show ?thesis using folds plus [OF True k, of cs] plus [OF True k, of ce] by simp
    next
      case False
      then have m: "sd = ''-''" using sd by simp
      show ?thesis using folds False minus [OF m k, of cs] minus [OF m k, of ce] by simp
    qed
  qed
  show ?thesis using t non cod marks by blast
qed


theorem coding_landmarks_witness:
  "\<exists>t. Transcript ''NM_1'' ''chr1'' ''-'' 100 320 120 310 [100, 300] [150, 320] ''G1'' 1 = Inr t \<and>
       tx_type t = Some ''coding'' \<and> trans_starts t = [20, 0] \<and>
       stop t = Some (20 + (150 - 120)) \<and> ctis t = Some (0 + (320 - 310)) \<and>
       stop t = Some 50 \<and> ctis t = Some 10"
proof -
  have asc: "ascending_exons [100, 300] [150, 320]"
    by (simp add: ascending_exons_def nth_Cons')
  have sd: "''-'' = ''+'' \<or> ''-'' = ''-''" by simp
  from coding_landmarks [OF sd asc, of "''NM_1''" "''chr1''" 100 320 120 310 "''G1''" 1]
  obtain t where
    t: "Transcript ''NM_1'' ''chr1'' ''-'' 100 320 120 310 [100, 300] [150, 320] ''G1'' 1 = Inr t"
    and ty: "tx_type t = Some ''coding''"
    and marks: "\<forall>k < 2.
           ([100, 300 :: int] ! k \<le> 120 \<and> 120 \<le> [150, 320 :: int] ! k \<longrightarrow>
              stop t = Some (trans_starts t ! k + ([150, 320 :: int] ! k - 120))) \<and>
           ([100, 300 :: int] ! k \<le> 310 \<and> 310 \<le> [150, 320 :: int] ! k \<longrightarrow>
              ctis t = Some (trans_starts t ! k + ([150, 320 :: int] ! k - 310)))"
    by auto
  have ts: "trans_starts t = [20, 0]"
    using t by (auto simp: Transcript_def get_transcriptomic_coordinates_def)
  have "stop t = Some (20 + (150 - 120))" using marks [rule_format, of 0] by (simp add: ts)
  moreover have "ctis t = Some (0 + (320 - 310))" using marks [rule_format, of 1] by (simp add: ts)
  ultimately show ?thesis using t ty ts by simp
qed

section \<open>Peak remapping\<close>

text \<open>
  Claim C6. For every line of the intersection the loop writes one segment, placed by
  the strand and the boundary test: on the \<open>+\<close> strand from the exon's transcriptomic
  start when the peak starts at or before the exon, and shifted by
  \<open>p_start - ex_st\<close> otherwise; on the \<open>-\<close> strand from the exon's transcriptomic start
  when the peak ends at or after the exon, and shifted by \<open>ex_end - p_end\<close> otherwise;
  the segment is as long as the overlap. The exon (1000, 1100) on the \<open>+\<close> strand with
  transcriptomic start 200 and the peak (1050, 1200) overlapping 50 give (250, 300).
\<close>

theorem remap_segments:
  "(peak_strand l = ''+'' \<and> p_start l \<le> ex_st l \<longrightarrow>
      temp_tr_bed (l # rest) =
        (peak_uid l, tr_exon_start l, tr_exon_start l + overlap l, peak_id l) # temp_tr_bed rest) \<and>
   (peak_strand l = ''+'' \<and> \<not> p_start l \<le> ex_st l \<longrightarrow>
      temp_tr_bed (l # rest) =
        (peak_uid l, tr_exon_start l + (p_start l - ex_st l),
         tr_exon_start l + (p_start l - ex_st l) + overlap l, peak_id l) # temp_tr_bed rest) \<and>
   (peak_strand l = ''-'' \<and> p_end l \<ge> ex_end l \<longrightarrow>
      temp_tr_bed (l # rest) =
        (peak_uid l, tr_exon_start l, tr_exon_start l + overlap l, peak_id l) # temp_tr_bed rest) \<and>
   (peak_strand l = ''-'' \<and> \<not> p_end l \<ge> ex_end l \<longrightarrow>
      temp_tr_bed (l # rest) =
        (peak_uid l, tr_exon_start l + (ex_end l - p_end l),
         tr_exon_start l + (ex_end l - p_end l) + overlap l, peak_id l) # temp_tr_bed rest) \<and>
   temp_tr_bed
     [\<lparr>p_start = 1050, p_end = 1200, peak_id = ''peak_1'', ex_st = 1000, ex_end = 1100,
       peak_strand = ''+'', peak_uid = ''3'', tr_exon_start = 200, overlap = 50\<rparr>] =
     [(''3'', 250, 300, ''peak_1'')]"
  by (simp add: remap_line_def Let_def)

theorem remap_segments_witness:
  "temp_tr_bed
     [\<lparr>p_start = 900, p_end = 1080, peak_id = ''peak_2'', ex_st = 1000, ex_end = 1100,
       peak_strand = ''-'', peak_uid = ''4'', tr_exon_start = 200, overlap = 80\<rparr>,
      \<lparr>p_start = 900, p_end = 1080, peak_id = ''peak_2'', ex_st = 1000, ex_end = 1100,
       peak_strand = ''+'', peak_uid = ''5'', tr_exon_start = 200, overlap = 80\<rparr>] =
     [(''4'', 220, 300, ''peak_2''), (''5'', 200, 280, ''peak_2'')]"
  using remap_segments
    [of "\<lparr>p_start = 900, p_end = 1080, peak_id = ''peak_2'', ex_st = 1000, ex_end = 1100,
       peak_strand = ''-'', peak_uid = ''4'', tr_exon_start = 200, overlap = 80\<rparr>"
      "[\<lparr>p_start = 900, p_end = 1080, peak_id = ''peak_2'', ex_st = 1000, ex_end = 1100,
       peak_strand = ''+'', peak_uid = ''5'', tr_exon_start = 200, overlap = 80\<rparr>]"]
    remap_segments
    [of "\<lparr>p_start = 900, p_end = 1080, peak_id = ''peak_2'', ex_st = 1000, ex_end = 1100,
       peak_strand = ''+'', peak_uid = ''5'', tr_exon_start = 200, overlap = 80\<rparr>" "[]"]
  by simp

text \<open>
  Claim C10. For a line of either strand, under either outcome of the boundary test, a
  segment is written and its end minus its start is the overlap of the line.
\<close>

theorem remap_width:
  assumes "peak_strand l = ''+'' \<or> peak_strand l = ''-''"
  shows "\<exists>u s e n. remap_line l = Some (u, s, e, n) \<and> e - s = overlap l \<and>
           temp_tr_bed (l # rest) = (u, s, e, n) # temp_tr_bed rest"
  using assms by (auto simp: remap_line_def Let_def)

theorem remap_width_witness:
  "\<exists>u s e n.
     remap_line \<lparr>p_start = 900, p_end = 1080, peak_id = ''peak_2'', ex_st = 1000, ex_end = 1100,
       peak_strand = ''-'', peak_uid = ''4'', tr_exon_start = 200, overlap = 80\<rparr> =
       Some (u, s, e, n) \<and> e - s = 80 \<and> s = 220"
proof -
  let ?l = "\<lparr>p_start = 900, p_end = 1080, peak_id = ''peak_2'', ex_st = 1000, ex_end = 1100,
       peak_strand = ''-'', peak_uid = ''4'', tr_exon_start = 200, overlap = 80\<rparr>"
  have "peak_strand ?l = ''+'' \<or> peak_strand ?l = ''-''" by simp
  from remap_width [OF this, of "[]"] obtain u s e n where
    r: "remap_line ?l = Some (u, s, e, n)" and w: "e - s = overlap ?l" by blast
  have "s = 220" using r by (simp add: remap_line_def)
  then show ?thesis using r w by simp
qed

section \<open>Isoform selection\<close>

lemma cufflinks_loop_matched_step:
  "gene_dict isoform = Some (gene, coding) \<Longrightarrow>
   cufflinks_loop gene_dict ((isoform, fpkm, txlength) # ls) d c =
     cufflinks_loop gene_dict ls (iso_update gene (isoform, fpkm, txlength, coding) d) c"
  by (simp add: iso_update_def split: option.split)

lemma cufflinks_loop_all_matched:
  "\<forall>x \<in> set ls. gene_dict (fst x) \<noteq> None \<Longrightarrow>
   \<exists>d'. (\<forall>c. cufflinks_loop gene_dict ls d c = Inr d')"
proof (induction ls arbitrary: d)
  case Nil
  then show ?case by simp
next
  case (Cons x ls)
  obtain isoform fpkm txlength where x: "x = (isoform, fpkm, txlength)" by (cases x) auto
  from Cons.prems x obtain gene coding where g: "gene_dict isoform = Some (gene, coding)"
    by fastforce
  have rest: "\<forall>x \<in> set ls. gene_dict (fst x) \<noteq> None"
    using Cons.prems by simp
  show ?case
    unfolding x cufflinks_loop_matched_step [of gene_dict isoform, OF g] by (rule Cons.IH [OF rest])
qed

lemma cufflinks_loop_count:
  "c \<le> 5 \<Longrightarrow>
   cufflinks_loop gene_dict ls d c =
     (if c + int (length (unmatched gene_dict ls)) > 5 then Inl SystemExit
      else cufflinks_loop gene_dict (matched gene_dict ls) d c)"
proof (induction ls arbitrary: d c)
  case Nil
  then show ?case by (simp add: unmatched_def matched_def)
next
  case (Cons x ls)
  obtain isoform fpkm txlength where x: "x = (isoform, fpkm, txlength)" by (cases x) auto
  show ?case
  proof (cases "gene_dict isoform")
    case None
    have m: "matched gene_dict ((isoform, fpkm, txlength) # ls) = matched gene_dict ls"
      and u: "length (unmatched gene_dict ((isoform, fpkm, txlength) # ls)) =
              Suc (length (unmatched gene_dict ls))"
      using None by (simp_all add: matched_def unmatched_def)
    show ?thesis
    proof (cases "c + 1 > 5")
      case True
      then show ?thesis using None by (simp add: x u)
    next
      case False
      then have c1: "c + 1 \<le> 5" by simp
      have all: "\<forall>x \<in> set (matched gene_dict ls). gene_dict (fst x) \<noteq> None"
        by (auto simp: matched_def)
      from cufflinks_loop_all_matched [OF all, of d]
      have indep: "cufflinks_loop gene_dict (matched gene_dict ls) d (c + 1) =
                   cufflinks_loop gene_dict (matched gene_dict ls) d c"
        by auto
      show ?thesis
        using None False Cons.IH [OF c1, of d] by (simp add: x u m indep)
    qed
  next
    case (Some a)
    obtain gene coding where a: "a = (gene, coding)" by (cases a) auto
    have m: "matched gene_dict ((isoform, fpkm, txlength) # ls) =
             (isoform, fpkm, txlength) # matched gene_dict ls"
      and u: "unmatched gene_dict ((isoform, fpkm, txlength) # ls) = unmatched gene_dict ls"
      using Some by (simp_all add: matched_def unmatched_def)
    have g: "gene_dict isoform = Some (gene, coding)" using Some a by simp
    show ?thesis
      unfolding x cufflinks_loop_matched_step [of gene_dict isoform, OF g] u m
      by (rule Cons.IH [OF Cons.prems])
  qed
qed

text \<open>
  Claim C8. A line whose isoform the annotation index lacks changes no entry of the
  dictionary and is counted. With at most 5 such lines the run returns what it returns
  on the other lines alone, and that is a set of isoforms; with more than 5 it exits.
\<close>

theorem unmatched_threshold:
  "choose_selected_cufflinks input_file gene_dict =
     (if length (unmatched gene_dict input_file) > 5 then Inl SystemExit
      else choose_selected_cufflinks (matched gene_dict input_file) gene_dict) \<and>
   (\<exists>chosen. choose_selected_cufflinks (matched gene_dict input_file) gene_dict = Inr chosen)"
proof -
  have all: "\<forall>x \<in> set (matched gene_dict input_file). gene_dict (fst x) \<noteq> None"
    by (auto simp: matched_def)
  from cufflinks_loop_all_matched [OF all, of "[]"] obtain d' where
    "cufflinks_loop gene_dict (matched gene_dict input_file) [] 0 = Inr d'" by auto
  then have ex: "\<exists>chosen. choose_selected_cufflinks (matched gene_dict input_file) gene_dict = Inr chosen"
    by (simp add: choose_selected_cufflinks_def)
  have "cufflinks_loop gene_dict input_file [] 0 =
     (if 0 + int (length (unmatched gene_dict input_file)) > 5 then Inl SystemExit
      else cufflinks_loop gene_dict (matched gene_dict input_file) [] 0)"
    by (rule cufflinks_loop_count) simp
  then show ?thesis using ex by (simp add: choose_selected_cufflinks_def)
qed

theorem unmatched_threshold_witness:
  "choose_selected_cufflinks
     [(''u1'', 1, 100), (''u2'', 1, 100), (''iso_a'', 2, 900), (''u3'', 1, 100),
      (''u4'', 1, 100), (''u5'', 1, 100)]
     (map_of [(''iso_a'', (''geneA'', 1))]) = Inr {''iso_a''} \<and>
   choose_selected_cufflinks
     [(''u1'', 1, 100), (''u2'', 1, 100), (''iso_a'', 2, 900), (''u3'', 1, 100),
      (''u4'', 1, 100), (''u5'', 1, 100), (''u6'', 1, 100)]
     (map_of [(''iso_a'', (''geneA'', 1))]) = Inl SystemExit"
  using unmatched_threshold
    [of "[(''u1'', 1, 100), (''u2'', 1, 100), (''iso_a'', 2, 900), (''u3'', 1, 100),
      (''u4'', 1, 100), (''u5'', 1, 100)]" "map_of [(''iso_a'', (''geneA'', 1))]"]
    unmatched_threshold
    [of "[(''u1'', 1, 100), (''u2'', 1, 100), (''iso_a'', 2, 900), (''u3'', 1, 100),
      (''u4'', 1, 100), (''u5'', 1, 100), (''u6'', 1, 100)]" "map_of [(''iso_a'', (''geneA'', 1))]"]
  by (simp add: unmatched_def matched_def choose_selected_cufflinks_def)

text \<open>
  Claim C3. The docstring of the source ranks the isoforms of a gene by FPKM, then
  coding before non-coding, then by length. The third test of the loop compares the
  lengths without looking at the coding flags: when the coding isoform (FPKM 5.0,
  length 800) is read first and the non-coding one (FPKM 5.0, length 1200) second, the
  entry of the gene passes from the coding isoform to the non-coding one.
\<close>

theorem coding_incumbent_replaced:
  "choose_selected_cufflinks [(''iso_c'', 5, 800), (''iso_n'', 5, 1200)]
     (map_of [(''iso_c'', (''geneA'', 1)), (''iso_n'', (''geneA'', 0))]) = Inr {''iso_n''}"
  by (simp add: choose_selected_cufflinks_def)

text \<open>
  Claim C2. By the same test the winner of a gene depends on the order of its lines:
  the same two lines, of equal FPKM, give the longer non-coding isoform in one order
  and the shorter coding isoform in the other.
\<close>

theorem winner_depends_on_order:
  "choose_selected_cufflinks [(''iso_1'', 2, 1000), (''iso_2'', 2, 1500)]
     (map_of [(''iso_1'', (''geneB'', 1)), (''iso_2'', (''geneB'', 0))]) = Inr {''iso_2''} \<and>
   choose_selected_cufflinks [(''iso_2'', 2, 1500), (''iso_1'', 2, 1000)]
     (map_of [(''iso_1'', (''geneB'', 1)), (''iso_2'', (''geneB'', 0))]) = Inr {''iso_1''}"
  by (simp add: choose_selected_cufflinks_def)

section \<open>Transcript parameters\<close>

lemma py_len_in_range:
  assumes "trans_ends tx \<noteq> []"
    and "0 \<le> Max (set (trans_ends tx))" "Max (set (trans_ends tx)) \<le> sys_maxsize"
  shows "py_len tx = Inr (Max (set (trans_ends tx)))"
proof -
  define n where "n = Max (set (trans_ends tx))"
  have "transcript_len tx = Inr n"
    unfolding n_def using assms(1) by (rule transcript_len_Max)
  moreover have "\<not> n < 0" "\<not> n > sys_maxsize" using assms(2,3) by (simp_all add: n_def)
  ultimately have "py_len tx = Inr n" by (simp add: py_len_def)
  then show ?thesis by (simp only: n_def)
qed

lemma tx_parameters_row:
  assumes "ctis tx \<noteq> None" and "trans_ends tx \<noteq> []"
    and "0 \<le> Max (set (trans_ends tx))" "Max (set (trans_ends tx)) \<le> sys_maxsize"
  shows "\<exists>row. tx_parameters tx = Inr row \<and> row_of tx row"
proof -
  from assms(1) obtain v where v: "ctis tx = Some v" by auto
  have len: "transcript_len tx = Inr (Max (set (trans_ends tx)))"
    using assms(2) by (rule transcript_len_Max)
  have plen: "py_len tx = Inr (Max (set (trans_ends tx)))"
    using assms(2-4) by (rule py_len_in_range)
  have lst: "length (trans_starts tx) > 1 \<Longrightarrow>
             last (sort (trans_starts tx)) = Max (set (trans_starts tx))"
    by (intro last_sort_Max) auto
  show ?thesis
    using lst
    by (simp add: tx_parameters_def ctis_positive_def par_def row_of_def v len plen cell_of_def)
qed

lemma class_parameters_rows:
  assumes "\<forall>tx \<in> set (filter (\<lambda>tx. length (chrom tx) \<le> 5) grp). summarizable tx"
  shows "\<exists>rows. class_parameters grp parameters = Inr (parameters @ rows) \<and>
           list_all2 row_of (filter (\<lambda>tx. length (chrom tx) \<le> 5) grp) rows"
  using assms
proof (induction grp arbitrary: parameters)
  case Nil
  then show ?case by simp
next
  case (Cons tx grp)
  have rest: "\<forall>tx \<in> set (filter (\<lambda>tx. length (chrom tx) \<le> 5) grp). summarizable tx"
    using Cons.prems by simp
  show ?case
  proof (cases "length (chrom tx) \<le> 5")
    case True
    then have "summarizable tx" using Cons.prems by simp
    then obtain row where row: "tx_parameters tx = Inr row" "row_of tx row"
      unfolding summarizable_def using tx_parameters_row [of tx] by blast
    from Cons.IH [OF rest, of "parameters @ [row]"] obtain rows where
      rows: "class_parameters grp (parameters @ [row]) = Inr ((parameters @ [row]) @ rows)"
        "list_all2 row_of (filter (\<lambda>tx. length (chrom tx) \<le> 5) grp) rows"
      by blast
    have "class_parameters (tx # grp) parameters = Inr (parameters @ (row # rows))"
      using True row(1) rows(1) by simp
    moreover have "list_all2 row_of (filter (\<lambda>tx. length (chrom tx) \<le> 5) (tx # grp)) (row # rows)"
      using True row(2) rows(2) by simp
    ultimately show ?thesis by blast
  next
    case False
    then show ?thesis using Cons.IH [OF rest, of parameters] by simp
  qed
qed

lemma parameters_loop_rows:
  assumes "\<forall>tx \<in> set (summarized tx_dict). summarizable tx"
  shows "\<exists>rows. parameters_loop tx_dict parameters = Inr (parameters @ rows) \<and>
           list_all2 row_of (summarized tx_dict) rows"
  using assms
proof (induction tx_dict arbitrary: parameters)
  case Nil
  then show ?case by (simp add: summarized_def)
next
  case (Cons entry tx_dict)
  obtain tx_class grp where entry: "entry = (tx_class, grp)" by (cases entry) auto
  have split: "summarized (entry # tx_dict) =
                 filter (\<lambda>tx. length (chrom tx) \<le> 5) grp @ summarized tx_dict"
    by (simp add: summarized_def entry)
  have here: "\<forall>tx \<in> set (filter (\<lambda>tx. length (chrom tx) \<le> 5) grp). summarizable tx"
    and rest: "\<forall>tx \<in> set (summarized tx_dict). summarizable tx"
    using Cons.prems by (simp_all add: split)
  from class_parameters_rows [OF here, of parameters] obtain rows1 where
    r1: "class_parameters grp parameters = Inr (parameters @ rows1)"
      "list_all2 row_of (filter (\<lambda>tx. length (chrom tx) \<le> 5) grp) rows1"
    by blast
  from Cons.IH [OF rest, of "parameters @ rows1"] obtain rows2 where
    r2: "parameters_loop tx_dict (parameters @ rows1) = Inr ((parameters @ rows1) @ rows2)"
      "list_all2 row_of (summarized tx_dict) rows2"
    by blast
  have "parameters_loop (entry # tx_dict) parameters = Inr (parameters @ (rows1 @ rows2))"
    using r1(1) r2(1) by (simp add: entry)
  moreover have "list_all2 row_of (summarized (entry # tx_dict)) (rows1 @ rows2)"
    unfolding split using r1(2) r2(2) by (rule list_all2_appendI)
  ultimately show ?case by blast
qed

text \<open>
  The two ways the call fails on a table that builds: an exon that ends before it
  starts gives a negative length, on which \<^verbatim>\<open>len(tx)\<close> raises, and a table with no
  transcript on a short chromosome name gives no row, on which the assignment of the
  column names raises.
\<close>

lemma get_parameters_negative_length:
  "(case build_transcriptome
           [\<lparr>line_uid = 1, line_tx_id = ''NR_1'', line_chrom = ''chr1'', line_strand = ''+'',
             txStart = 50, txEnd = 100, cdsStart = 50, cdsEnd = 50,
             exonStarts_list = [100], exonEnds_list = [50], gene_id = ''G1''\<rparr>] ''txid'' of
      Inl e \<Rightarrow> Inl e
    | Inr tx_dict \<Rightarrow> get_parameters tx_dict) = Inl ValueError"
  by (simp add: get_parameters_def tx_parameters_def ctis_positive_def par_def py_len_def
      transcript_len_def build_transcriptome_def build_transcript_def Transcript_def
      get_transcriptomic_coordinates_def get_start_stop_def line_key_def)

lemma get_parameters_none_kept:
  "summarized tx_dict = [] \<Longrightarrow> get_parameters tx_dict = Inl ValueError"
  using parameters_loop_rows [of tx_dict "[]"]
  by (auto simp: get_parameters_def parameters_df_def)



section \<open>The conversion input\<close>

lemma coords_uid:
  "get_transcriptomic_coordinates self = Inr self' \<Longrightarrow> uid self' = uid self"
  by (auto simp: get_transcriptomic_coordinates_def split: if_splits sum.splits)

lemma build_transcript_uid: "build_transcript line = Inr tx \<Longrightarrow> uid tx = line_uid line"
  by (auto simp: build_transcript_def Transcript_def split: sum.splits dest!: coords_uid)

lemma transcriptome_loop_distinct:
  "transcriptome_loop key ls d = Inr d' \<Longrightarrow> distinct (map fst d) \<Longrightarrow> distinct (map fst d')"
proof (induction ls arbitrary: d)
  case Nil
  then show ?case by simp
next
  case (Cons l ls)
  then show ?case
    by (auto split: sum.splits option.splits simp: distinct_update)
qed

lemma transcriptome_loop_groups:
  "transcriptome_loop key ls d = Inr d' \<Longrightarrow>
   map_of d' k =
     (if same_key key ls k = [] then map_of d k
      else Some ((case map_of d k of None \<Rightarrow> [] | Some grp \<Rightarrow> grp) @
                 map built (same_key key ls k)))"
proof (induction ls arbitrary: d)
  case Nil
  then show ?case by (simp add: same_key_def)
next
  case (Cons l ls)
  from Cons.prems obtain tx where tx: "build_transcript l = Inr tx"
    by (auto split: sum.splits)
  then have b: "built l = tx" by (simp add: built_def)
  let ?d1 = "AList.update (line_key key l)
               ((case map_of d (line_key key l) of None \<Rightarrow> [] | Some grp \<Rightarrow> grp) @ [tx]) d"
  have step: "transcriptome_loop key ls ?d1 = Inr d'"
    using Cons.prems tx by (auto split: option.splits)
  have m1: "map_of ?d1 k =
     (if k = line_key key l
      then Some ((case map_of d k of None \<Rightarrow> [] | Some grp \<Rightarrow> grp) @ [tx])
      else map_of d k)"
    by (simp add: update_conv')
  show ?case
    unfolding Cons.IH [OF step] m1
    by (auto simp: same_key_def b)
qed

lemma build_transcriptome_groups:
  assumes "build_transcriptome tb key = Inr d"
  shows "distinct (map fst d)"
    and "map_of d k = (if same_key key tb k = [] then None else Some (map built (same_key key tb k)))"
proof -
  from assms have loop: "transcriptome_loop key tb [] = Inr d"
    by (simp add: build_transcriptome_def split: if_splits)
  show "distinct (map fst d)" using transcriptome_loop_distinct [OF loop] by simp
  show "map_of d k = (if same_key key tb k = [] then None else Some (map built (same_key key tb k)))"
    using transcriptome_loop_groups [OF loop, of k] by simp
qed

lemma transcriptome_loop_built:
  "transcriptome_loop key ls d = Inr d' \<Longrightarrow> l \<in> set ls \<Longrightarrow> build_transcript l = Inr (built l)"
proof (induction ls arbitrary: d)
  case Nil
  then show ?case by simp
next
  case (Cons x ls)
  then show ?case
    by (auto split: sum.splits option.splits simp: built_def)
qed

lemma concat_single_key:
  "distinct (map fst d) \<Longrightarrow> k0 \<in> fst ` set d \<Longrightarrow>
   concat (map (\<lambda>(k, grp). if k = k0 then X else []) d) = X"
proof (induction d)
  case Nil
  then show ?case by simp
next
  case (Cons e d)
  obtain k grp where e: "e = (k, grp)" by (cases e) auto
  show ?case
  proof (cases "k = k0")
    case True
    then have "k0 \<notin> fst ` set d" using Cons.prems(1) e by auto
    then have "concat (map (\<lambda>(k, grp). if k = k0 then X else []) d) = []"
      by (induction d) auto
    then show ?thesis using True e by simp
  next
    case False
    then have "k0 \<in> fst ` set d" using Cons.prems(2) e by auto
    then show ?thesis using Cons.IH Cons.prems(1) False e by simp
  qed
qed

lemma exon_lines_uid: "r \<in> set (exon_lines tx) \<Longrightarrow> bed_key_uid r = uid tx"
  by (auto simp: exon_lines_def bed_key_uid_def)

lemma filter_exon_lines:
  "filter (\<lambda>r. bed_key_uid r = u) (exon_lines tx) = (if uid tx = u then exon_lines tx else [])"
  by (auto simp: filter_empty_conv exon_lines_uid intro!: filter_True)

text \<open>
  Claim C7, as amended. The main program keys the dictionary by transcript id. For
  every line of the table (the unique ids of the lines being distinct), the lines of
  the conversion input that carry its unique id are the exon lines of its transcript
  when no other line of the table has its transcript id, and there are none when
  another line has it.
\<close>

theorem sole_tx_id_participates:
  assumes "main_temp_bed_key tb_array = Inr bed"
    and "distinct (map line_uid tb_array)"
    and "l \<in> set tb_array"
  shows "\<exists>tx. build_transcript l = Inr tx \<and>
           filter (\<lambda>r. bed_key_uid r = line_uid l) bed =
             (if length (filter (\<lambda>m. line_tx_id m = line_tx_id l) tb_array) = 1
              then exon_lines tx else [])"
proof -
  let ?key = "''txid''"
  let ?k0 = "line_key ?key l"
  let ?P = "\<lambda>r. bed_key_uid r = line_uid l"
  let ?g = "\<lambda>(tx_class, grp). if length grp = 1 then concat (map exon_lines grp) else []"
  let ?X = "if length (same_key ?key tb_array ?k0) = 1 then exon_lines (built l) else []"
  from assms(1) obtain d where d: "build_transcriptome tb_array ?key = Inr d"
    and bed: "bed = temp_bed_key d"
    by (auto simp: main_temp_bed_key_def split: sum.splits)
  have dist: "distinct (map fst d)" using d by (rule build_transcriptome_groups(1))
  have grp: "map_of d k =
      (if same_key ?key tb_array k = [] then None
       else Some (map built (same_key ?key tb_array k)))" for k
    using d by (rule build_transcriptome_groups(2))
  from d have loop: "transcriptome_loop ?key tb_array [] = Inr d"
    by (simp add: build_transcriptome_def)
  have ok: "build_transcript m = Inr (built m)" if "m \<in> set tb_array" for m
    using loop that by (rule transcriptome_loop_built)
  have uid_built: "uid (built m) = line_uid m" if "m \<in> set tb_array" for m
    using ok [OF that] by (rule build_transcript_uid)
  have inj: "m = l" if "m \<in> set tb_array" "line_uid m = line_uid l" for m
    using assms(2,3) that by (auto simp: distinct_map inj_on_def)
  have l_in: "l \<in> set (same_key ?key tb_array ?k0)"
    using assms(3) by (simp add: same_key_def)
  have entry: "filter ?P (?g (k, grp)) = (if k = ?k0 then ?X else [])"
    if mem: "(k, grp) \<in> set d" for k grp
  proof -
    from mem dist have "map_of d k = Some grp" by simp
    with grp [of k] have g: "grp = map built (same_key ?key tb_array k)"
      by (auto split: if_splits)
    show ?thesis
    proof (cases "length grp = 1")
      case False
      then show ?thesis using g by auto
    next
      case True
      then obtain m where m: "same_key ?key tb_array k = [m]"
        using g by (cases "same_key ?key tb_array k") auto
      then have m_in: "m \<in> set tb_array" and m_key: "line_key ?key m = k"
        using filter_eq_ConsD [of "\<lambda>m. line_key ?key m = k" tb_array m "[]"]
        by (auto simp: same_key_def)
      have rows: "filter ?P (?g (k, grp)) = (if line_uid m = line_uid l then exon_lines (built m) else [])"
        using True g m by (simp add: filter_exon_lines uid_built [OF m_in])
      show ?thesis
      proof (cases "k = ?k0")
        case True
        with l_in m have "m = l" by simp
        then show ?thesis using rows True m by simp
      next
        case False
        then have "m \<noteq> l" using m_key by auto
        then have "line_uid m \<noteq> line_uid l" using inj [OF m_in] by auto
        then show ?thesis using rows False by simp
      qed
    qed
  qed
  have "filter ?P bed = concat (map (\<lambda>e. filter ?P (?g e)) d)"
    by (simp add: bed temp_bed_key_def filter_concat comp_def)
  also have "\<dots> = concat (map (\<lambda>(k, grp). if k = ?k0 then ?X else []) d)"
  proof (rule arg_cong [where f = concat], rule map_cong [OF refl])
    fix e assume e: "e \<in> set d"
    obtain k grp where kg: "e = (k, grp)" by (cases e) auto
    from entry [of k grp] e kg
    show "filter ?P (?g e) = (case e of (k, grp) \<Rightarrow> if k = ?k0 then ?X else [])"
      by simp
  qed
  also have "\<dots> = ?X"
  proof (rule concat_single_key [OF dist])
    have "map_of d ?k0 \<noteq> None" using grp [of ?k0] l_in by auto
    then show "?k0 \<in> fst ` set d" by (simp add: map_of_eq_None_iff)
  qed
  finally have res: "filter ?P bed = ?X" .
  have cnt: "same_key ?key tb_array ?k0 = filter (\<lambda>m. line_tx_id m = line_tx_id l) tb_array"
    by (simp add: same_key_def line_key_def)
  show ?thesis using ok [OF assms(3)] res by (simp add: cnt)
qed

theorem sole_tx_id_participates_witness:
  "\<exists>bed tx.
     main_temp_bed_key
       [\<lparr>line_uid = 1, line_tx_id = ''NM_1'', line_chrom = ''chr1'', line_strand = ''+'',
       txStart = 100, txEnd = 320, cdsStart = 120, cdsEnd = 310,
       exonStarts_list = [100, 300], exonEnds_list = [150, 320], gene_id = ''G1''\<rparr>,
        \<lparr>line_uid = 2, line_tx_id = ''NM_2'', line_chrom = ''chr7'', line_strand = ''-'',
       txStart = 500, txEnd = 560, cdsStart = 500, cdsEnd = 500,
       exonStarts_list = [500], exonEnds_list = [560], gene_id = ''G2''\<rparr>,
        \<lparr>line_uid = 3, line_tx_id = ''NM_2'', line_chrom = ''chr8'', line_strand = ''-'',
       txStart = 700, txEnd = 760, cdsStart = 700, cdsEnd = 700,
       exonStarts_list = [700], exonEnds_list = [760], gene_id = ''G2''\<rparr>] = Inr bed \<and>
     build_transcript
       \<lparr>line_uid = 1, line_tx_id = ''NM_1'', line_chrom = ''chr1'', line_strand = ''+'',
       txStart = 100, txEnd = 320, cdsStart = 120, cdsEnd = 310,
       exonStarts_list = [100, 300], exonEnds_list = [150, 320], gene_id = ''G1''\<rparr> = Inr tx \<and>
     filter (\<lambda>r. bed_key_uid r = 1) bed = exon_lines tx \<and>
     exon_lines tx = [(''chr1'', 100, 150, ''*'', ''*'', ''+'', 1, 0, 50),
                      (''chr1'', 300, 320, ''*'', ''*'', ''+'', 1, 50, 70)] \<and>
     filter (\<lambda>r. bed_key_uid r = 2) bed = []"
proof -
  let ?l1 = "\<lparr>line_uid = 1, line_tx_id = ''NM_1'', line_chrom = ''chr1'', line_strand = ''+'',
       txStart = 100, txEnd = 320, cdsStart = 120, cdsEnd = 310,
       exonStarts_list = [100, 300], exonEnds_list = [150, 320], gene_id = ''G1''\<rparr>"
  let ?l2 = "\<lparr>line_uid = 2, line_tx_id = ''NM_2'', line_chrom = ''chr7'', line_strand = ''-'',
       txStart = 500, txEnd = 560, cdsStart = 500, cdsEnd = 500,
       exonStarts_list = [500], exonEnds_list = [560], gene_id = ''G2''\<rparr>"
  let ?l3 = "\<lparr>line_uid = 3, line_tx_id = ''NM_2'', line_chrom = ''chr8'', line_strand = ''-'',
       txStart = 700, txEnd = 760, cdsStart = 700, cdsEnd = 700,
       exonStarts_list = [700], exonEnds_list = [760], gene_id = ''G2''\<rparr>"
  let ?bed = "[(''chr1'', 100, 150, ''*'', ''*'', ''+'', 1, 0, 50),
               (''chr1'', 300, 320, ''*'', ''*'', ''+'', 1, 50, 70)]"
  have run: "main_temp_bed_key [?l1, ?l2, ?l3] = Inr ?bed"
    by (simp add: main_temp_bed_key_def temp_bed_key_def exon_lines_def build_transcriptome_def build_transcript_def Transcript_def get_transcriptomic_coordinates_def get_start_stop_def line_key_def)
  have dist: "distinct (map line_uid [?l1, ?l2, ?l3])" by simp
  have "?l1 \<in> set [?l1, ?l2, ?l3]" by simp
  from sole_tx_id_participates [OF run dist this] obtain tx where
    tx: "build_transcript ?l1 = Inr tx" "filter (\<lambda>r. bed_key_uid r = 1) ?bed = exon_lines tx"
    by auto
  have "?l2 \<in> set [?l1, ?l2, ?l3]" by simp
  from sole_tx_id_participates [OF run dist this]
  have none: "filter (\<lambda>r. bed_key_uid r = 2) ?bed = []"
    by auto
  have "exon_lines tx = ?bed" using tx(2) by (simp add: bed_key_uid_def)
  then show ?thesis using run tx none by simp
qed

text \<open>
  Claim C7, as stated, fails: in the table of two lines below, which share the
  transcript id \<open>NM_2\<close>, each line has a unique id of its own (keyed by unique id, every
  group has one member and both transcripts would be written), yet the main program
  writes no exon of either.
\<close>

theorem uid_group_counterexample:
  "main_temp_bed_key
     [\<lparr>line_uid = 2, line_tx_id = ''NM_2'', line_chrom = ''chr7'', line_strand = ''-'',
       txStart = 500, txEnd = 560, cdsStart = 500, cdsEnd = 500,
       exonStarts_list = [500], exonEnds_list = [560], gene_id = ''G2''\<rparr>,
      \<lparr>line_uid = 3, line_tx_id = ''NM_2'', line_chrom = ''chr8'', line_strand = ''-'',
       txStart = 700, txEnd = 760, cdsStart = 700, cdsEnd = 700,
       exonStarts_list = [700], exonEnds_list = [760], gene_id = ''G2''\<rparr>] = Inr [] \<and>
   map_sum id (map (map_prod id length))
     (build_transcriptome
        [\<lparr>line_uid = 2, line_tx_id = ''NM_2'', line_chrom = ''chr7'', line_strand = ''-'',
       txStart = 500, txEnd = 560, cdsStart = 500, cdsEnd = 500,
       exonStarts_list = [500], exonEnds_list = [560], gene_id = ''G2''\<rparr>,
         \<lparr>line_uid = 3, line_tx_id = ''NM_2'', line_chrom = ''chr8'', line_strand = ''-'',
       txStart = 700, txEnd = 760, cdsStart = 700, cdsEnd = 700,
       exonStarts_list = [700], exonEnds_list = [760], gene_id = ''G2''\<rparr>] ''uid'') = Inr [(IntKey 2, 1), (IntKey 3, 1)] \<and>
   map_sum id temp_bed_key
     (build_transcriptome
        [\<lparr>line_uid = 2, line_tx_id = ''NM_2'', line_chrom = ''chr7'', line_strand = ''-'',
       txStart = 500, txEnd = 560, cdsStart = 500, cdsEnd = 500,
       exonStarts_list = [500], exonEnds_list = [560], gene_id = ''G2''\<rparr>,
         \<lparr>line_uid = 3, line_tx_id = ''NM_2'', line_chrom = ''chr8'', line_strand = ''-'',
       txStart = 700, txEnd = 760, cdsStart = 700, cdsEnd = 700,
       exonStarts_list = [700], exonEnds_list = [760], gene_id = ''G2''\<rparr>] ''uid'') =
     Inr [(''chr7'', 500, 560, ''*'', ''*'', ''-'', 2, 0, 60),
          (''chr8'', 700, 760, ''*'', ''*'', ''-'', 3, 0, 60)]"
  by (simp add: main_temp_bed_key_def temp_bed_key_def exon_lines_def build_transcriptome_def build_transcript_def Transcript_def get_transcriptomic_coordinates_def get_start_stop_def line_key_def)

end
